theory Spec2Isabelle
  imports Complex_Main
begin

section \<open>The music21 input interface of muspy\<close>

text \<open>
  A shallow embedding of \<^verbatim>\<open>muspy/inputs/music21.py\<close>: the conversion of a music21
  score (a hierarchy of streams with offsets in quarter notes) into the flat, tick-based
  classes of muspy.

  Conventions of the model.
  \<^item> Python's \<^verbatim>\<open>float\<close> and music21's offsets (floats or fractions) are rationals, and
    the arithmetic on them is exact. That is what the floating-point arithmetic of the
    source computes whenever the values involved are dyadic rationals of moderate size,
    as they are for integer resolutions and time signatures whose denominator is a power
    of two.
  \<^item> An exception of the source is a value \<open>Inl e\<close> of a sum type; a normal return is
    \<open>Inr v\<close>.
  \<^item> What music21 computes (the flattened views of a stream, the instrument of a part,
    the partition of a part by instrument) is input data of the model: the fields of the
    record \<open>Stream\<close> hold what the corresponding music21 call returns, and
    \<^verbatim>\<open>partitionByInstrument\<close> is a parameter.
\<close>

subsection \<open>Python and numpy primitives\<close>

datatype py_error = IndexError | ZeroDivisionError | ValueError

text \<open>\<^verbatim>\<open>round(x)\<close> on a float: to the nearest integer, a tie going to the even one.\<close>

definition py_round :: "rat \<Rightarrow> int" where
  "py_round x =
     (let f = \<lfloor>x\<rfloor>; d = x - of_int f
      in if d < 1 / 2 then f
         else if 1 / 2 < d then f + 1
         else if even f then f else f + 1)"

text \<open>
  \<^verbatim>\<open>np.arange(start, stop, step)\<close> for a non-zero step: \<open>\<lceil>(stop - start) / step\<rceil>\<close> values
  (none when that is not positive), the \<open>i\<close>-th being \<open>start + i * step\<close>.
\<close>

definition np_arange :: "rat \<Rightarrow> rat \<Rightarrow> rat \<Rightarrow> rat list" where
  "np_arange start stop step =
     map (\<lambda>i. start + of_nat i * step) [0..<nat \<lceil>(stop - start) / step\<rceil>]"

text \<open>
  A Python \<^verbatim>\<open>set\<close> is the list of its distinct members; \<^verbatim>\<open>s.add(x)\<close> is \<open>set_add\<close>.
  The order in which a set is iterated is not fixed by the language (it follows the
  hashes of the members), so every function that iterates a set takes that order as a
  parameter: a function from the members to the sequence in which they are visited.
  \<open>is_iteration_order\<close> says that such a function visits every member once.
\<close>

definition set_add :: "'a \<Rightarrow> 'a list \<Rightarrow> 'a list" where
  "set_add x s = (if x \<in> set s then s else s @ [x])"

definition is_iteration_order :: "('a list \<Rightarrow> 'a list) \<Rightarrow> bool" where
  "is_iteration_order it = (\<forall>s. distinct s \<longrightarrow> distinct (it s) \<and> set (it s) = set s)"

text \<open>The first error of a list of results, or all the values.\<close>

fun collect :: "('e + 'a) list \<Rightarrow> 'e + 'a list" where
  "collect [] = Inr []"
| "collect (r # rs) =
     (case r of
        Inl e \<Rightarrow> Inl e
      | Inr v \<Rightarrow> (case collect rs of Inl e \<Rightarrow> Inl e | Inr vs \<Rightarrow> Inr (v # vs)))"

subsection \<open>What music21 provides\<close>

record M21Metadata =
  title :: "string option"
  contributors :: "string list list"
  all_items :: "(string \<times> string) list"

text \<open>
  An element of \<^verbatim>\<open>stream.flat.getElementsByClass(KeySignature)\<close>: a \<^verbatim>\<open>Key\<close> (offset,
  pitch class of the tonic, mode, sharps) or a bare key signature (offset, sharps).
\<close>

datatype M21KeySignature =
  Key rat int string int
| KeySignatureOnly rat int

record M21TimeSignature =
  offset :: rat
  numerator :: int
  denominator :: int

text \<open>
  An element of \<^verbatim>\<open>stream.flat.notesAndRests\<close>. \<open>M21Note\<close> carries \<^verbatim>\<open>pitch.midi\<close>,
  \<open>M21Chord\<close> the \<^verbatim>\<open>pitch.midi\<close> of each of its notes; \<open>M21Rest\<close> stands for every
  element that is neither a note nor a chord. \<open>tie\<close> is the type of the tie, if any.
\<close>

datatype M21Kind = M21Rest | M21Note int | M21Chord "int list"

record GeneralNote =
  kind :: M21Kind
  offset :: rat
  quarterLength :: rat
  isGrace :: bool
  volume_velocity :: "rat option"
  tie :: "string option"

record Instrument =
  midiProgram :: "int option"
  midiChannel :: "int option"

text \<open>
  A stream (a part or a score), by the views the source reads from it:
  \<open>metronomeMarkBoundaries\<close> holds (start, end, quarter BPM of the mark).
\<close>

record Stream =
  metadata :: "M21Metadata option"
  metronomeMarkBoundaries :: "(rat \<times> rat \<times> rat) list"
  keySignatures :: "M21KeySignature list"
  getTimeSignatures :: "M21TimeSignature list"
  measureOffsetMap :: "rat list"
  notesAndRests :: "GeneralNote list"
  getInstrument :: Instrument
  partName :: "string option"

record Score = Stream +
  parts :: "Stream list"

subsection \<open>The classes of muspy\<close>

text \<open>
  Modelled from the spec: the constant \<^verbatim>\<open>DEFAULT_RESOLUTION\<close>, which the source imports
  from \<^verbatim>\<open>..music\<close>. The spec calls it the default tick resolution, a named constant
  shared by all components; the docstrings of the source give its value,
  \<^verbatim>\<open>muspy.DEFAULT_RESOLUTION (24)\<close>.
\<close>

definition DEFAULT_RESOLUTION :: int where
  "DEFAULT_RESOLUTION = 24"

text \<open>
  Modelled from the spec: the classes \<^verbatim>\<open>Metadata\<close>, \<^verbatim>\<open>Tempo\<close>, \<^verbatim>\<open>KeySignature\<close>,
  \<^verbatim>\<open>TimeSignature\<close>, \<^verbatim>\<open>Beat\<close>, \<^verbatim>\<open>Chord\<close>, \<^verbatim>\<open>Note\<close>, and further down \<^verbatim>\<open>Track\<close> and
  \<^verbatim>\<open>Music\<close>, which the source imports from \<^verbatim>\<open>..classes\<close> and \<^verbatim>\<open>..music\<close>. They are
  the records of the attributes the spec's data model lists (and the source passes to
  the constructors); two records are equal when all their attributes are equal, which is
  the equality the spec gives the sets of the annotation passes (duplicates collapse by
  full equality).
\<close>

record Metadata =
  title :: "string option"
  creators :: "string list"
  copyright :: "string option"

record Tempo =
  time :: int
  qpm :: rat

record KeySignature =
  time :: int
  root :: "int option"
  mode :: "string option"
  fifths :: int

record TimeSignature =
  time :: int
  numerator :: int
  denominator :: int

record Beat =
  time :: int
  is_downbeat :: bool

record Chord =
  time :: int
  pitches :: "int list"
  duration :: int
  velocity :: "int option"

record Note =
  time :: int
  pitch :: int
  duration :: int
  velocity :: "int option"

subsection \<open>Metadata and annotations\<close>

definition parse_metadata :: "'a Stream_scheme \<Rightarrow> Metadata option" where
  "parse_metadata stream =
     (case Stream.metadata stream of
        None \<Rightarrow> None
      | Some md \<Rightarrow>
          Some \<lparr>Metadata.title = M21Metadata.title md,
                creators = concat (contributors md),
                copyright =
                  foldl (\<lambda>c item. if fst item = ''copyright'' then Some (snd item) else c)
                    None (all_items md)\<rparr>)"

definition parse_tempos ::
  "(Tempo list \<Rightarrow> Tempo list) \<Rightarrow> 'a Stream_scheme \<Rightarrow> int \<Rightarrow> Tempo list" where
  "parse_tempos iter stream resolution =
     sort_key Tempo.time
       (iter (foldl
          (\<lambda>tempos (start, _, bpm).
             set_add \<lparr>Tempo.time = py_round (start * of_int resolution), qpm = bpm\<rparr> tempos)
          [] (metronomeMarkBoundaries stream)))"

definition parse_key_signatures ::
  "(KeySignature list \<Rightarrow> KeySignature list) \<Rightarrow> 'a Stream_scheme \<Rightarrow> int \<Rightarrow> KeySignature list"
  where
  "parse_key_signatures iter stream resolution =
     sort_key KeySignature.time
       (iter (foldl
          (\<lambda>key_signatures item.
             (case item of
                Key off tonic md sharps \<Rightarrow>
                  set_add \<lparr>KeySignature.time = py_round (off * of_int resolution),
                           root = Some tonic, mode = Some md, fifths = sharps\<rparr>
                    key_signatures
              | KeySignatureOnly off sharps \<Rightarrow>
                  set_add \<lparr>KeySignature.time = py_round (off * of_int resolution),
                           root = None, mode = None, fifths = sharps\<rparr>
                    key_signatures))
          [] (keySignatures stream)))"

definition parse_time_signatures ::
  "(TimeSignature list \<Rightarrow> TimeSignature list) \<Rightarrow> 'a Stream_scheme \<Rightarrow> int \<Rightarrow>
     TimeSignature list" where
  "parse_time_signatures iter stream resolution =
     sort_key TimeSignature.time
       (iter (foldl
          (\<lambda>time_signatures item.
             set_add \<lparr>TimeSignature.time =
                        py_round (M21TimeSignature.offset item * of_int resolution),
                      numerator = M21TimeSignature.numerator item,
                      denominator = M21TimeSignature.denominator item\<rparr>
               time_signatures)
          [] (getTimeSignatures stream)))"

subsection \<open>The beat grid\<close>

text \<open>
  The beats of one measure: one per value of \<^verbatim>\<open>np.arange\<close>, a downbeat where the index
  is a multiple of the numerator. Taking an index modulo a numerator of zero raises.
\<close>

definition measure_beats :: "TimeSignature \<Rightarrow> rat list \<Rightarrow> py_error + Beat list" where
  "measure_beats time_sign ticks =
     (if ticks \<noteq> [] \<and> numerator time_sign = 0 then Inl ZeroDivisionError
      else Inr (map (\<lambda>(j, t). \<lparr>Beat.time = py_round t,
                               is_downbeat = (int j mod numerator time_sign = 0)\<rparr>)
                  (enumerate 0 ticks)))"

text \<open>
  The \<^verbatim>\<open>while\<close> loop of \<^verbatim>\<open>parse_beats\<close>, on the two indices and the beats appended so
  far. Reading \<^verbatim>\<open>time_signatures[time_sign_idx]\<close> beyond the list raises; dividing by
  \<^verbatim>\<open>denominator / 4 = 0.0\<close> raises; \<^verbatim>\<open>np.arange\<close> raises for a step of zero (the
  model names that exception \<open>ValueError\<close>; nothing below depends on its class).
\<close>

function parse_beats_loop ::
  "TimeSignature list \<Rightarrow> int \<Rightarrow> int list \<Rightarrow> nat \<Rightarrow> nat \<Rightarrow> Beat list \<Rightarrow> py_error + Beat list"
  where
  "parse_beats_loop time_signatures resolution downbeats time_sign_idx downbeat_idx beats =
     (if downbeat_idx < length downbeats then
        (if int time_sign_idx < int (length time_signatures) - 1
            \<and> TimeSignature.time (time_signatures ! time_sign_idx) \<le> downbeats ! downbeat_idx
         then parse_beats_loop time_signatures resolution downbeats
                (time_sign_idx + 1) downbeat_idx beats
         else if length time_signatures \<le> time_sign_idx then Inl IndexError
         else
           (let time_sign = time_signatures ! time_sign_idx in
            if denominator time_sign = 0 then Inl ZeroDivisionError
            else
              (let beat_resolution = of_int resolution / (of_int (denominator time_sign) / 4);
                   end =
                     (if int downbeat_idx < int (length downbeats) - 1
                      then of_int (downbeats ! (downbeat_idx + 1))
                      else of_int (downbeats ! downbeat_idx)
                             + beat_resolution * of_int (numerator time_sign))
               in if beat_resolution = 0 then Inl ValueError
                  else
                    (case measure_beats time_sign
                            (np_arange (of_int (downbeats ! downbeat_idx)) end beat_resolution)
                     of
                       Inl e \<Rightarrow> Inl e
                     | Inr bs \<Rightarrow>
                         parse_beats_loop time_signatures resolution downbeats
                           time_sign_idx (downbeat_idx + 1) (beats @ bs)))))
      else Inr beats)"
  by pat_completeness auto
termination
  by (relation "measure (\<lambda>(tss, r, dbs, ti, di, bs). (length tss - ti) + (length dbs - di))")
     auto

definition parse_beats ::
  "'a Stream_scheme \<Rightarrow> TimeSignature list \<Rightarrow> int \<Rightarrow> py_error + Beat list" where
  "parse_beats stream time_signatures resolution =
     (let downbeats =
            sort (map (\<lambda>offset. py_round (offset * of_int resolution))
                    (measureOffsetMap stream))
      in parse_beats_loop time_signatures resolution downbeats 0 0 [])"

subsection \<open>Notes and chords\<close>

text \<open>
  A fragment has an outgoing tie when it carries a tie of type \<^verbatim>\<open>start\<close> or
  \<^verbatim>\<open>continue\<close>.
\<close>

definition is_outgoing_tie :: "GeneralNote \<Rightarrow> bool" where
  "is_outgoing_tie item =
     (case tie item of None \<Rightarrow> False | Some t \<Rightarrow> t = ''start'' \<or> t = ''continue'')"

text \<open>
  The state of the loop of \<^verbatim>\<open>parse_notes_and_chords\<close>: the notes, the chords and the
  table of open ties (pitch to index into the notes).
\<close>

type_synonym extraction = "Note list \<times> Chord list \<times> (int \<rightharpoonup> nat)"

text \<open>
  The body of the loop, for one element of the stream. \<^verbatim>\<open>notes[note_idx]\<close> raises for an
  index beyond the list.
\<close>

definition extract_item :: "int \<Rightarrow> extraction \<Rightarrow> GeneralNote \<Rightarrow> py_error + extraction" where
  "extract_item resolution state item =
     (case state of
        (notes, chords, ties) \<Rightarrow>
          (case kind item of
             M21Rest \<Rightarrow> Inr state
           | M21Note midi \<Rightarrow>
               if isGrace item then Inr state
               else
                 (let time = py_round (GeneralNote.offset item * of_int resolution);
                      duration = py_round (quarterLength item * of_int resolution);
                      velocity = map_option py_round (volume_velocity item);
                      pitch = midi
                  in case ties pitch of
                       Some note_idx \<Rightarrow>
                         if note_idx < length notes then
                           Inr (notes[note_idx :=
                                  (notes ! note_idx)
                                    \<lparr>Note.duration :=
                                       Note.duration (notes ! note_idx) + duration\<rparr>],
                                chords,
                                if is_outgoing_tie item then ties(pitch \<mapsto> note_idx)
                                else ties(pitch := None))
                         else Inl IndexError
                     | None \<Rightarrow>
                         Inr (notes @ [\<lparr>Note.time = time, pitch = pitch,
                                         duration = duration, velocity = velocity\<rparr>],
                              chords,
                              if is_outgoing_tie item then ties(pitch \<mapsto> length notes)
                              else ties))
           | M21Chord midis \<Rightarrow>
               if isGrace item then Inr state
               else
                 (let time = py_round (GeneralNote.offset item * of_int resolution);
                      duration = py_round (quarterLength item * of_int resolution);
                      velocity = map_option py_round (volume_velocity item)
                  in Inr (notes,
                          chords @ [\<lparr>Chord.time = time, pitches = midis,
                                      duration = duration, velocity = velocity\<rparr>],
                          ties))))"

fun extract_items :: "int \<Rightarrow> extraction \<Rightarrow> GeneralNote list \<Rightarrow> py_error + extraction" where
  "extract_items resolution state [] = Inr state"
| "extract_items resolution state (item # items) =
     (case extract_item resolution state item of
        Inl e \<Rightarrow> Inl e
      | Inr state' \<Rightarrow> extract_items resolution state' items)"

definition parse_notes_and_chords ::
  "'a Stream_scheme \<Rightarrow> int \<Rightarrow> py_error + Note list \<times> Chord list" where
  "parse_notes_and_chords stream resolution =
     (case extract_items resolution ([], [], Map.empty) (notesAndRests stream) of
        Inl e \<Rightarrow> Inl e
      | Inr (notes, chords, ties) \<Rightarrow> Inr (notes, chords))"

subsection \<open>Tracks\<close>

record Track =
  program :: int
  is_drum :: bool
  name :: "string option"
  "notes" :: "Note list"
  chords :: "Chord list"

definition parse_track :: "'a Stream_scheme \<Rightarrow> int \<Rightarrow> py_error + Track" where
  "parse_track part resolution =
     (case parse_notes_and_chords part resolution of
        Inl e \<Rightarrow> Inl e
      | Inr (ns, cs) \<Rightarrow>
          (let instrument = getInstrument part;
               prog = (case midiProgram instrument of Some p \<Rightarrow> p | None \<Rightarrow> 0);
               drum = (case midiChannel instrument of Some c \<Rightarrow> c = 10 | None \<Rightarrow> False)
           in Inr \<lparr>program = prog, is_drum = drum, name = partName part,
                   notes = ns, chords = cs\<rparr>))"

text \<open>
  \<^verbatim>\<open>from_music21_part\<close> returns one track or a list of tracks. The partition of a part
  by instrument is \<open>None\<close> or a stream of sub-parts; it counts as true when it has at least
  one sub-part.
\<close>

datatype Tracks = OneTrack Track | TrackList "Track list"

definition from_music21_part ::
  "(Stream \<Rightarrow> Stream list option) \<Rightarrow> Stream \<Rightarrow> int \<Rightarrow> py_error + Tracks" where
  "from_music21_part partitionByInstrument part resolution =
     (case partitionByInstrument part of
        Some (i # is) \<Rightarrow>
          map_sum id TrackList
            (collect (map (\<lambda>instrument. parse_track instrument resolution) (i # is)))
      | _ \<Rightarrow> map_sum id OneTrack (parse_track part resolution))"

subsection \<open>Scores\<close>

record Music =
  metadata :: "Metadata option"
  resolution :: int
  tempos :: "Tempo list"
  key_signatures :: "KeySignature list"
  time_signatures :: "TimeSignature list"
  beats :: "Beat list"
  tracks :: "Track list"

text \<open>The iteration orders of the three sets a score conversion builds.\<close>

record SetIteration =
  iter_tempos :: "Tempo list \<Rightarrow> Tempo list"
  iter_key_signatures :: "KeySignature list \<Rightarrow> KeySignature list"
  iter_time_signatures :: "TimeSignature list \<Rightarrow> TimeSignature list"

text \<open>
  The tracks one part of a score contributes. The source calls \<^verbatim>\<open>parse_track\<close> here
  without a resolution, that is with the default.
\<close>

definition score_part_tracks ::
  "(Stream \<Rightarrow> Stream list option) \<Rightarrow> Stream \<Rightarrow> py_error + Track list" where
  "score_part_tracks partitionByInstrument part =
     (case partitionByInstrument part of
        Some (i # is) \<Rightarrow>
          collect (map (\<lambda>instrument. parse_track instrument DEFAULT_RESOLUTION) (i # is))
      | _ \<Rightarrow>
          if 0 < length (notesAndRests part)
          then collect [parse_track part DEFAULT_RESOLUTION]
          else Inr [])"

text \<open>
  The tracks come first, then the time signatures and the beats, then the remaining
  arguments of \<^verbatim>\<open>Music(...)\<close>; \<^verbatim>\<open>parse_tempos\<close> is called without a resolution.
\<close>

definition from_music21_score ::
  "SetIteration \<Rightarrow> (Stream \<Rightarrow> Stream list option) \<Rightarrow> Score \<Rightarrow> int \<Rightarrow> py_error + Music" where
  "from_music21_score iter partitionByInstrument score res =
     (case collect (map (score_part_tracks partitionByInstrument) (parts score)) of
        Inl e \<Rightarrow> Inl e
      | Inr tracks_of_parts \<Rightarrow>
          (let tss = parse_time_signatures (iter_time_signatures iter) score res
           in case parse_beats score tss res of
                Inl e \<Rightarrow> Inl e
              | Inr bs \<Rightarrow>
                  Inr \<lparr>Music.metadata = parse_metadata score,
                       resolution = DEFAULT_RESOLUTION,
                       tempos = parse_tempos (iter_tempos iter) score DEFAULT_RESOLUTION,
                       key_signatures =
                         parse_key_signatures (iter_key_signatures iter) score res,
                       time_signatures = tss,
                       beats = bs,
                       tracks = concat tracks_of_parts\<rparr>))"

subsection \<open>Vocabulary of the properties\<close>

text \<open>
  The quantities of one stream element at a resolution, as the loop of
  \<^verbatim>\<open>parse_notes_and_chords\<close> computes them, and the chord it appends for a chord element.
\<close>

definition quantized_time :: "int \<Rightarrow> GeneralNote \<Rightarrow> int" where
  "quantized_time r item = py_round (GeneralNote.offset item * of_int r)"

definition quantized_duration :: "int \<Rightarrow> GeneralNote \<Rightarrow> int" where
  "quantized_duration r item = py_round (quarterLength item * of_int r)"

definition rounded_velocity :: "GeneralNote \<Rightarrow> int option" where
  "rounded_velocity item = map_option py_round (volume_velocity item)"

definition chord_of :: "int \<Rightarrow> GeneralNote \<Rightarrow> Chord" where
  "chord_of r item =
     \<lparr>Chord.time = quantized_time r item,
      pitches = (case kind item of M21Chord ms \<Rightarrow> ms | _ \<Rightarrow> []),
      duration = quantized_duration r item,
      velocity = rounded_velocity item\<rparr>"

text \<open>
  A fragment at pitch \<open>p\<close> is a note of that pitch that is not a grace note: the elements
  that reach the tie handling for \<open>p\<close>.
\<close>

definition is_fragment :: "int \<Rightarrow> GeneralNote \<Rightarrow> bool" where
  "is_fragment p item = (kind item = M21Note p \<and> \<not> isGrace item)"

definition is_chord :: "GeneralNote \<Rightarrow> bool" where
  "is_chord item = (case kind item of M21Chord ms \<Rightarrow> True | _ \<Rightarrow> False)"

text \<open>
  The invariant of the loop: an open tie points at a note of its pitch, and no later note
  has that pitch.
\<close>

definition ties_wf :: "extraction \<Rightarrow> bool" where
  "ties_wf state =
     (case state of
        (ns, cs, ties) \<Rightarrow>
          \<forall>q i. ties q = Some i \<longrightarrow>
            i < length ns \<and> Note.pitch (ns ! i) = q
            \<and> (\<forall>j. i < j \<and> j < length ns \<longrightarrow> Note.pitch (ns ! j) \<noteq> q))"

text \<open>
  What the loop does to the notes of one pitch \<open>p\<close>, seen on their own: the notes of that
  pitch and whether a tie is open. A fragment extends the last note when a tie is open and
  appends a note otherwise.
\<close>

definition pitch_view :: "int \<Rightarrow> extraction \<Rightarrow> Note list \<times> bool" where
  "pitch_view p state =
     (case state of (ns, cs, ties) \<Rightarrow> (filter (\<lambda>n. Note.pitch n = p) ns, ties p \<noteq> None))"

fun merge_fragment :: "int \<Rightarrow> int \<Rightarrow> Note list \<times> bool \<Rightarrow> GeneralNote \<Rightarrow> Note list \<times> bool"
  where
  "merge_fragment r p (ns, opn) item =
     (if opn
      then (butlast ns
              @ [(last ns)\<lparr>Note.duration :=
                             Note.duration (last ns) + quantized_duration r item\<rparr>],
            is_outgoing_tie item)
      else (ns @ [\<lparr>Note.time = quantized_time r item, pitch = p,
                    duration = quantized_duration r item,
                    velocity = rounded_velocity item\<rparr>],
            is_outgoing_tie item))"

subsection \<open>Example inputs\<close>

text \<open>A stream with nothing in it, and one that has measures at the given offsets.\<close>

definition empty_stream :: Stream where
  "empty_stream =
     \<lparr>Stream.metadata = None, metronomeMarkBoundaries = [], keySignatures = [],
      getTimeSignatures = [], measureOffsetMap = [], notesAndRests = [],
      getInstrument = \<lparr>midiProgram = None, midiChannel = None\<rparr>, partName = None\<rparr>"

definition stream_with_measures :: "rat list \<Rightarrow> Stream" where
  "stream_with_measures offsets = empty_stream\<lparr>measureOffsetMap := offsets\<rparr>"

text \<open>
  A part with a tie chain of three fragments at pitch 60 (quarter lengths 1, 1/2 and 2,
  velocities 80, 50 and 30), with a tied chord, a note of another pitch and a rest in
  between.
\<close>

definition example_note :: "int \<Rightarrow> rat \<Rightarrow> rat \<Rightarrow> rat option \<Rightarrow> string option \<Rightarrow> GeneralNote" where
  "example_note p off len vel t =
     \<lparr>kind = M21Note p, offset = off, quarterLength = len, isGrace = False,
      volume_velocity = vel, tie = t\<rparr>"

definition chain_first :: GeneralNote where
  "chain_first = example_note 60 0 1 (Some 80) (Some ''start'')"

definition chain_middle :: GeneralNote where
  "chain_middle = example_note 60 1 (1 / 2) (Some 50) (Some ''continue'')"

definition chain_last :: GeneralNote where
  "chain_last = example_note 60 (3 / 2) 2 (Some 30) (Some ''stop'')"

definition tied_chord :: GeneralNote where
  "tied_chord =
     \<lparr>kind = M21Chord [60, 64], offset = 0, quarterLength = 1, isGrace = False,
      volume_velocity = None, tie = Some ''start''\<rparr>"

definition grace_chord :: GeneralNote where
  "grace_chord = tied_chord\<lparr>isGrace := True, quarterLength := 0, tie := None\<rparr>"

definition a_rest :: GeneralNote where
  "a_rest =
     \<lparr>kind = M21Rest, offset = 1, quarterLength = 1 / 2, isGrace = False,
      volume_velocity = None, tie = None\<rparr>"

definition tied_part :: Stream where
  "tied_part =
     empty_stream
       \<lparr>notesAndRests :=
          [chain_first, tied_chord, example_note 62 1 1 None None, chain_middle, a_rest,
           chain_last]\<rparr>"

text \<open>A part for a percussion instrument that declares no program.\<close>

definition drum_part :: Stream where
  "drum_part = empty_stream\<lparr>getInstrument := \<lparr>midiProgram = None, midiChannel = Some 10\<rparr>\<rparr>"

text \<open>
  The record each of the three annotation passes builds from one element of the score.
\<close>

definition tempo_of :: "int \<Rightarrow> rat \<times> rat \<times> rat \<Rightarrow> Tempo" where
  "tempo_of r boundary =
     (case boundary of
        (start, _, bpm) \<Rightarrow> \<lparr>Tempo.time = py_round (start * of_int r), qpm = bpm\<rparr>)"

definition key_signature_of :: "int \<Rightarrow> M21KeySignature \<Rightarrow> KeySignature" where
  "key_signature_of r item =
     (case item of
        Key off tonic md sharps \<Rightarrow>
          \<lparr>KeySignature.time = py_round (off * of_int r),
           root = Some tonic, mode = Some md, fifths = sharps\<rparr>
      | KeySignatureOnly off sharps \<Rightarrow>
          \<lparr>KeySignature.time = py_round (off * of_int r),
           root = None, mode = None, fifths = sharps\<rparr>)"

definition time_signature_of :: "int \<Rightarrow> M21TimeSignature \<Rightarrow> TimeSignature" where
  "time_signature_of r item =
     \<lparr>TimeSignature.time = py_round (M21TimeSignature.offset item * of_int r),
      numerator = M21TimeSignature.numerator item,
      denominator = M21TimeSignature.denominator item\<rparr>"

text \<open>
  A score in two meters at once (3/4 and 4/4, both from offset 0), and a score that states
  its tempo, its key and its meter twice, as a score does whose parts each carry them.
\<close>

definition polymetric :: Stream where
  "polymetric =
     empty_stream
       \<lparr>getTimeSignatures :=
          [\<lparr>M21TimeSignature.offset = 0, numerator = 3, denominator = 4\<rparr>,
           \<lparr>M21TimeSignature.offset = 0, numerator = 4, denominator = 4\<rparr>]\<rparr>"

definition annotated :: Stream where
  "annotated =
     empty_stream
       \<lparr>metronomeMarkBoundaries := [(4, 8, 90), (0, 4, 120), (4, 8, 90), (0, 4, 120)],
        keySignatures :=
          [KeySignatureOnly 4 2, Key 0 0 ''major'' 0, KeySignatureOnly 4 2, Key 0 0 ''major'' 0],
        getTimeSignatures :=
          [\<lparr>M21TimeSignature.offset = 4, numerator = 3, denominator = 4\<rparr>,
           \<lparr>M21TimeSignature.offset = 0, numerator = 4, denominator = 4\<rparr>,
           \<lparr>M21TimeSignature.offset = 4, numerator = 3, denominator = 4\<rparr>]\<rparr>"

text \<open>
  The sub-parts a partition by instrument yields (none when there is no partition), the
  iteration order that visits a set in insertion order, and example scores: one that rests
  on the default 4/4 entry music21 supplies for a score without a time signature, one
  whose only part is silent, and one with a tempo mark, a key signature and a note at
  offset 1.
\<close>

definition partition_of :: "(Stream \<Rightarrow> Stream list option) \<Rightarrow> Stream \<Rightarrow> Stream list" where
  "partition_of partitionByInstrument part =
     (case partitionByInstrument part of None \<Rightarrow> [] | Some subs \<Rightarrow> subs)"

definition insertion_order :: SetIteration where
  "insertion_order =
     \<lparr>iter_tempos = (\<lambda>s. s), iter_key_signatures = (\<lambda>s. s),
      iter_time_signatures = (\<lambda>s. s)\<rparr>"

definition score_of :: "Stream \<Rightarrow> Stream list \<Rightarrow> Score" where
  "score_of stream ps =
     \<lparr>Stream.metadata = Stream.metadata stream,
      metronomeMarkBoundaries = metronomeMarkBoundaries stream,
      keySignatures = keySignatures stream,
      getTimeSignatures = getTimeSignatures stream,
      measureOffsetMap = measureOffsetMap stream,
      notesAndRests = notesAndRests stream,
      getInstrument = getInstrument stream,
      partName = partName stream,
      parts = ps\<rparr>"

definition default_meter :: "M21TimeSignature list" where
  "default_meter = [\<lparr>M21TimeSignature.offset = 0, numerator = 4, denominator = 4\<rparr>]"

definition unmetered_score :: Score where
  "unmetered_score =
     score_of (empty_stream\<lparr>getTimeSignatures := default_meter, measureOffsetMap := [0]\<rparr>) []"

definition silent_score :: Score where
  "silent_score =
     score_of (empty_stream\<lparr>getTimeSignatures := default_meter, measureOffsetMap := [0]\<rparr>)
       [empty_stream]"

definition offset_one_score :: Score where
  "offset_one_score =
     score_of
       (empty_stream
          \<lparr>metronomeMarkBoundaries := [(1, 5, 120)],
           keySignatures := [KeySignatureOnly 1 2],
           getTimeSignatures := default_meter,
           measureOffsetMap := [0]\<rparr>)
       [empty_stream\<lparr>notesAndRests := [example_note 60 1 1 None None]\<rparr>]"

text \<open>
  The fragments at one pitch, split into tie chains in stream order: a fragment with an
  outgoing tie is joined by the fragment that follows it, a fragment without one ends its
  chain. Only the last chain can end on an outgoing tie (a tie the stream leaves open).
  \<open>chain_note\<close> is the note a chain stands for: the time and the velocity of its first
  fragment and the sum of the quantized durations of all its fragments.
\<close>

fun tie_chains :: "GeneralNote list \<Rightarrow> GeneralNote list list" where
  "tie_chains [] = []"
| "tie_chains (f # fs) =
     (if is_outgoing_tie f
      then (case tie_chains fs of [] \<Rightarrow> [[f]] | c # cs \<Rightarrow> (f # c) # cs)
      else [f] # tie_chains fs)"

definition chain_note :: "int \<Rightarrow> int \<Rightarrow> GeneralNote list \<Rightarrow> Note" where
  "chain_note r p c =
     \<lparr>Note.time = quantized_time r (hd c), pitch = p,
      duration = sum_list (map (quantized_duration r) c),
      velocity = rounded_velocity (hd c)\<rparr>"

text \<open>
  A part with two tie chains at pitch 60, the second of which the stream leaves open.
\<close>

definition two_chains_part :: Stream where
  "two_chains_part =
     empty_stream
       \<lparr>notesAndRests :=
          [chain_first, tied_chord, chain_middle, chain_last,
           example_note 60 4 1 (Some 10) (Some ''start''),
           example_note 62 4 1 None None,
           example_note 60 5 1 (Some 20) (Some ''continue'')]\<rparr>"

text \<open>
  The set an annotation pass has built when it reaches the final sort: the records made
  from the elements by \<open>g\<close>, each kept once.
\<close>

definition set_of_records :: "('a \<Rightarrow> 'b) \<Rightarrow> 'a list \<Rightarrow> 'b list" where
  "set_of_records g xs = foldl (\<lambda>acc x. set_add (g x) acc) [] xs"

text \<open>A partition by instrument that returns every silent part as its own one sub-part.\<close>

definition partition_of_silent :: "Stream \<Rightarrow> Stream list option" where
  "partition_of_silent p = (if notesAndRests p = [] then Some [p] else None)"

section \<open>Properties\<close>

declare parse_beats_loop.simps [simp del]

subsection \<open>The beat grid on concrete scores\<close>

lemma beats_of_two_measures:
  "parse_beats_loop [\<lparr>TimeSignature.time = 0, numerator = 4, denominator = 4\<rparr>] 24
     [0, 96] 0 0 [] =
   Inr [\<lparr>Beat.time = 0, is_downbeat = True\<rparr>, \<lparr>Beat.time = 24, is_downbeat = False\<rparr>,
        \<lparr>Beat.time = 48, is_downbeat = False\<rparr>, \<lparr>Beat.time = 72, is_downbeat = False\<rparr>,
        \<lparr>Beat.time = 96, is_downbeat = True\<rparr>, \<lparr>Beat.time = 120, is_downbeat = False\<rparr>,
        \<lparr>Beat.time = 144, is_downbeat = False\<rparr>, \<lparr>Beat.time = 168, is_downbeat = False\<rparr>]"
  by code_simp

text \<open>
  C8. With the single time signature 4/4 at tick 0, resolution 24 and measures starting at
  ticks 0 and 96, \<open>parse_beats\<close> returns exactly the eight beats at ticks 0, 24, 48, 72,
  96, 120, 144 and 168, of which those at 0 and 96 are downbeats and no other is.
\<close>

theorem beat_grid_single_signature:
  assumes "sort (map (\<lambda>offset. py_round (offset * of_int 24)) (measureOffsetMap stream))
             = [0, 96]"
  shows "parse_beats stream [\<lparr>TimeSignature.time = 0, numerator = 4, denominator = 4\<rparr>] 24 =
     Inr [\<lparr>Beat.time = 0, is_downbeat = True\<rparr>, \<lparr>Beat.time = 24, is_downbeat = False\<rparr>,
          \<lparr>Beat.time = 48, is_downbeat = False\<rparr>, \<lparr>Beat.time = 72, is_downbeat = False\<rparr>,
          \<lparr>Beat.time = 96, is_downbeat = True\<rparr>, \<lparr>Beat.time = 120, is_downbeat = False\<rparr>,
          \<lparr>Beat.time = 144, is_downbeat = False\<rparr>, \<lparr>Beat.time = 168, is_downbeat = False\<rparr>]"
  unfolding parse_beats_def Let_def using assms beats_of_two_measures by simp

theorem beat_grid_single_signature_witness:
  "sort (map (\<lambda>offset. py_round (offset * of_int 24))
           (measureOffsetMap (stream_with_measures [0, 4]))) = [0, 96]
   \<and> parse_beats (stream_with_measures [0, 4])
       [\<lparr>TimeSignature.time = 0, numerator = 4, denominator = 4\<rparr>] 24 =
     Inr [\<lparr>Beat.time = 0, is_downbeat = True\<rparr>, \<lparr>Beat.time = 24, is_downbeat = False\<rparr>,
          \<lparr>Beat.time = 48, is_downbeat = False\<rparr>, \<lparr>Beat.time = 72, is_downbeat = False\<rparr>,
          \<lparr>Beat.time = 96, is_downbeat = True\<rparr>, \<lparr>Beat.time = 120, is_downbeat = False\<rparr>,
          \<lparr>Beat.time = 144, is_downbeat = False\<rparr>, \<lparr>Beat.time = 168, is_downbeat = False\<rparr>]"
proof -
  have h: "sort (map (\<lambda>offset. py_round (offset * of_int 24))
                   (measureOffsetMap (stream_with_measures [0, 4]))) = [0, 96]"
    by code_simp
  show ?thesis using h beat_grid_single_signature [OF h] by simp
qed

text \<open>
  C1. What \<open>parse_beats\<close> returns for the time signatures 4/4 at tick 0 and 3/4 at tick
  96, resolution 24 and measures starting at ticks 0, 96 and 168 (offsets 0, 4 and 7): the
  first measure is already counted in 3/4, so the beat at tick 72 is a downbeat. The loop
  moves to the next time signature when the measure start has reached the time of the
  current one, not the time of the next.
\<close>

theorem beat_grid_meter_change_computed:
  "parse_beats (stream_with_measures [0, 4, 7])
     [\<lparr>TimeSignature.time = 0, numerator = 4, denominator = 4\<rparr>,
      \<lparr>TimeSignature.time = 96, numerator = 3, denominator = 4\<rparr>] 24 =
   Inr [\<lparr>Beat.time = 0, is_downbeat = True\<rparr>, \<lparr>Beat.time = 24, is_downbeat = False\<rparr>,
        \<lparr>Beat.time = 48, is_downbeat = False\<rparr>, \<lparr>Beat.time = 72, is_downbeat = True\<rparr>,
        \<lparr>Beat.time = 96, is_downbeat = True\<rparr>, \<lparr>Beat.time = 120, is_downbeat = False\<rparr>,
        \<lparr>Beat.time = 144, is_downbeat = False\<rparr>, \<lparr>Beat.time = 168, is_downbeat = True\<rparr>,
        \<lparr>Beat.time = 192, is_downbeat = False\<rparr>, \<lparr>Beat.time = 216, is_downbeat = False\<rparr>]"
  by code_simp

subsection \<open>The loop over the notes and rests\<close>

lemma filter_update_other:
  "i < length xs \<Longrightarrow> \<not> P (xs ! i) \<Longrightarrow> \<not> P y \<Longrightarrow> filter P (xs[i := y]) = filter P xs"
proof (induction xs arbitrary: i)
  case Nil
  then show ?case by simp
next
  case (Cons x xs)
  then show ?case by (cases i) auto
qed

lemma filter_drop_none:
  assumes "\<forall>j. i < j \<and> j < length xs \<longrightarrow> \<not> P (xs ! j)"
  shows "filter P (drop (Suc i) xs) = []"
proof -
  have "\<forall>x \<in> set (drop (Suc i) xs). \<not> P x"
  proof
    fix x assume "x \<in> set (drop (Suc i) xs)"
    then obtain k where k: "k < length (drop (Suc i) xs)" "x = drop (Suc i) xs ! k"
      by (auto simp: in_set_conv_nth)
    then have "x = xs ! (Suc i + k)" "Suc i + k < length xs" by auto
    with assms show "\<not> P x" by auto
  qed
  then show ?thesis by (simp add: filter_empty_conv)
qed

lemma filter_last_split:
  assumes "i < length xs" "P (xs ! i)" "\<forall>j. i < j \<and> j < length xs \<longrightarrow> \<not> P (xs ! j)"
  shows "filter P xs = filter P (take i xs) @ [xs ! i]"
proof -
  have "xs = take i xs @ xs ! i # drop (Suc i) xs"
    using assms(1) by (simp add: id_take_nth_drop)
  then have "filter P xs = filter P (take i xs @ xs ! i # drop (Suc i) xs)" by simp
  also have "\<dots> = filter P (take i xs) @ [xs ! i]"
    using assms(2) filter_drop_none [OF assms(3)] by simp
  finally show ?thesis .
qed

lemma filter_update_last:
  assumes "i < length xs" "P (xs ! i)" "P y" "\<forall>j. i < j \<and> j < length xs \<longrightarrow> \<not> P (xs ! j)"
  shows "filter P (xs[i := y]) = butlast (filter P xs) @ [y]"
    and "last (filter P xs) = xs ! i"
proof -
  have a: "filter P xs = filter P (take i xs) @ [xs ! i]"
    using filter_last_split [OF assms(1,2,4)] .
  have "xs[i := y] = take i xs @ y # drop (Suc i) xs"
    using assms(1) by (simp add: upd_conv_take_nth_drop)
  then have "filter P (xs[i := y]) = filter P (take i xs) @ [y]"
    using assms(3) filter_drop_none [OF assms(4)] by simp
  with a show "filter P (xs[i := y]) = butlast (filter P xs) @ [y]" by simp
  from a show "last (filter P xs) = xs ! i" by simp
qed

lemma extract_item_wf:
  assumes "ties_wf state"
  shows "\<exists>state'. extract_item r state item = Inr state' \<and> ties_wf state'"
proof -
  obtain ns cs ties where s: "state = (ns, cs, ties)" by (cases state)
  show ?thesis
  proof (cases "kind item")
    case M21Rest
    then show ?thesis using assms by (simp add: extract_item_def s)
  next
    case (M21Chord ms)
    then show ?thesis using assms by (simp add: extract_item_def s ties_wf_def Let_def)
  next
    case (M21Note p)
    show ?thesis
    proof (cases "isGrace item")
      case True
      then show ?thesis using assms M21Note by (simp add: extract_item_def s)
    next
      case False
      show ?thesis
      proof (cases "ties p")
        case None
        then show ?thesis using assms M21Note False
          by (auto simp: extract_item_def s ties_wf_def Let_def nth_append)
             (meson less_SucI)+
      next
        case (Some i)
        then have "i < length ns" using assms by (simp add: s ties_wf_def)
        then show ?thesis using assms M21Note False Some
          by (auto simp: extract_item_def s ties_wf_def Let_def nth_list_update)
      qed
    qed
  qed
qed

lemma extract_items_wf:
  "ties_wf state \<Longrightarrow> \<exists>state'. extract_items r state items = Inr state' \<and> ties_wf state'"
proof (induction items arbitrary: state)
  case Nil
  then show ?case by simp
next
  case (Cons item items)
  from extract_item_wf [OF Cons.prems, of r item]
  obtain s1 where s1: "extract_item r state item = Inr s1" "ties_wf s1" by blast
  from Cons.IH [OF s1(2)] s1(1) show ?case by simp
qed

lemma ties_wf_initial: "ties_wf ([], [], Map.empty)"
  by (simp add: ties_wf_def)

lemma parse_notes_and_chords_returns:
  "\<exists>ns cs. parse_notes_and_chords stream r = Inr (ns, cs)"
proof -
  obtain s where "extract_items r ([], [], Map.empty) (notesAndRests stream) = Inr s"
    using extract_items_wf [OF ties_wf_initial] by blast
  then show ?thesis by (cases s) (simp add: parse_notes_and_chords_def)
qed

lemma extract_item_view:
  assumes "ties_wf state"
  shows "\<exists>state'. extract_item r state item = Inr state' \<and>
           pitch_view p state' =
             (if is_fragment p item then merge_fragment r p (pitch_view p state) item
              else pitch_view p state)"
proof -
  obtain ns cs ties where s: "state = (ns, cs, ties)" by (cases state)
  show ?thesis
  proof (cases "kind item")
    case M21Rest
    then show ?thesis by (simp add: extract_item_def s is_fragment_def)
  next
    case (M21Chord ms)
    then show ?thesis by (simp add: extract_item_def s is_fragment_def pitch_view_def Let_def)
  next
    case (M21Note q)
    show ?thesis
    proof (cases "isGrace item")
      case True
      then show ?thesis using M21Note by (simp add: extract_item_def s is_fragment_def)
    next
      case False
      show ?thesis
      proof (cases "ties q")
        case None
        then show ?thesis using M21Note False
          by (auto simp: extract_item_def s is_fragment_def pitch_view_def Let_def
                quantized_time_def quantized_duration_def rounded_velocity_def)
      next
        case (Some i)
        with assms have i: "i < length ns" "Note.pitch (ns ! i) = q"
          "\<forall>j. i < j \<and> j < length ns \<longrightarrow> Note.pitch (ns ! j) \<noteq> q"
          by (auto simp: s ties_wf_def)
        define n' where "n' = (ns ! i)\<lparr>Note.duration := Note.duration (ns ! i) + quantized_duration r item\<rparr>"
        have n': "Note.pitch n' = q" using i(2) by (simp add: n'_def)
        have res: "extract_item r state item =
           Inr (ns[i := n'], cs, if is_outgoing_tie item then ties(q \<mapsto> i) else ties(q := None))"
          using M21Note False Some i(1)
          by (simp add: extract_item_def s Let_def n'_def quantized_duration_def)
        show ?thesis
        proof (cases "p = q")
          case True
          have a: "filter (\<lambda>n. Note.pitch n = q) (ns[i := n']) =
                   butlast (filter (\<lambda>n. Note.pitch n = q) ns) @ [n']"
            by (rule filter_update_last(1)) (use i n' in auto)
          have b: "last (filter (\<lambda>n. Note.pitch n = q) ns) = ns ! i"
            by (rule filter_update_last(2) [where y = n']) (use i n' in auto)
          show ?thesis using True M21Note False Some res a b
            by (simp add: is_fragment_def pitch_view_def s n'_def)
        next
          case neq: False
          have "filter (\<lambda>n. Note.pitch n = p) (ns[i := n']) = filter (\<lambda>n. Note.pitch n = p) ns"
            by (rule filter_update_other) (use i n' neq in auto)
          then show ?thesis using neq M21Note False Some res
            by (simp add: is_fragment_def pitch_view_def s)
        qed
      qed
    qed
  qed
qed

lemma extract_items_view:
  assumes "ties_wf state"
  shows "\<exists>state'. extract_items r state items = Inr state' \<and>
           pitch_view p state' =
             foldl (merge_fragment r p) (pitch_view p state) (filter (is_fragment p) items)"
  using assms
proof (induction items arbitrary: state)
  case Nil
  then show ?case by simp
next
  case (Cons item items)
  from extract_item_wf [OF Cons.prems, of r item]
  obtain s1 where s1: "extract_item r state item = Inr s1" "ties_wf s1" by blast
  from extract_item_view [OF Cons.prems, of r item p] s1(1)
  have v: "pitch_view p s1 =
             (if is_fragment p item then merge_fragment r p (pitch_view p state) item
              else pitch_view p state)" by simp
  from Cons.IH [OF s1(2)] s1(1) v show ?case by (cases "is_fragment p item") auto
qed

lemma merge_open_chain:
  assumes "\<forall>f \<in> set fs. is_outgoing_tie f" "\<not> is_outgoing_tie l"
  shows "foldl (merge_fragment r p) (ns @ [n], True) (fs @ [l]) =
           (ns @ [n\<lparr>Note.duration := Note.duration n + sum_list (map (quantized_duration r) (fs @ [l]))\<rparr>], False)"
  using assms
proof (induction fs arbitrary: n)
  case Nil
  then show ?case by simp
next
  case (Cons f fs)
  then show ?case by (simp add: add.assoc)
qed

lemma merge_chain:
  assumes "\<forall>f \<in> set (butlast (f0 # fs)). is_outgoing_tie f" "\<not> is_outgoing_tie (last (f0 # fs))"
  shows "foldl (merge_fragment r p) ([], False) (f0 # fs) =
           ([\<lparr>Note.time = quantized_time r f0, pitch = p,
              duration = sum_list (map (quantized_duration r) (f0 # fs)),
              velocity = rounded_velocity f0\<rparr>], False)"
proof (cases fs rule: rev_cases)
  case Nil
  then show ?thesis using assms by simp
next
  case (snoc gs l)
  with assms have g: "is_outgoing_tie f0" "\<forall>f \<in> set gs. is_outgoing_tie f" "\<not> is_outgoing_tie l"
    by (auto simp: butlast_append)
  show ?thesis
    using merge_open_chain [OF g(2,3), of r p "[]"] g(1) snoc by simp
qed

lemma chain_notes:
  assumes "filter (is_fragment p) (notesAndRests stream) = f0 # fs"
    and "\<forall>f \<in> set (butlast (f0 # fs)). is_outgoing_tie f"
    and "\<not> is_outgoing_tie (last (f0 # fs))"
  shows "\<exists>ns cs. parse_notes_and_chords stream r = Inr (ns, cs) \<and>
           filter (\<lambda>n. Note.pitch n = p) ns =
             [\<lparr>Note.time = quantized_time r f0, pitch = p,
               duration = sum_list (map (quantized_duration r) (f0 # fs)),
               velocity = rounded_velocity f0\<rparr>]"
proof -
  from extract_items_view [OF ties_wf_initial, of r "notesAndRests stream" p]
  obtain s where s: "extract_items r ([], [], Map.empty) (notesAndRests stream) = Inr s"
    "pitch_view p s = foldl (merge_fragment r p) (pitch_view p ([], [], Map.empty)) (f0 # fs)"
    using assms(1) by auto
  obtain ns cs ties where t: "s = (ns, cs, ties)" by (cases s)
  have "pitch_view p ([], [], Map.empty) = ([], False)" by (simp add: pitch_view_def)
  with s(2) merge_chain [OF assms(2,3), of r p]
  have "filter (\<lambda>n. Note.pitch n = p) ns = [\<lparr>Note.time = quantized_time r f0, pitch = p,
               duration = sum_list (map (quantized_duration r) (f0 # fs)),
               velocity = rounded_velocity f0\<rparr>]"
    by (simp add: t pitch_view_def)
  then show ?thesis using s(1) t by (simp add: parse_notes_and_chords_def)
qed

subsection \<open>Tie chains\<close>

lemma py_round_of_int: "py_round (of_int k) = k"
  by (simp add: py_round_def)

lemma quantized_durations_on_grid:
  assumes "\<forall>f \<in> set fs. \<exists>k. quarterLength f * of_int r = of_int (k :: int)"
  shows "sum_list (map (quantized_duration r) fs) =
           py_round (sum_list (map quarterLength fs) * of_int r)"
proof -
  have "of_int (sum_list (map (quantized_duration r) fs)) =
          sum_list (map quarterLength fs) * of_int r"
    using assms
  proof (induction fs)
    case Nil
    then show ?case by simp
  next
    case (Cons f fs)
    then obtain k where k: "quarterLength f * of_int r = of_int k" by auto
    then have "quantized_duration r f = k"
      by (simp add: quantized_duration_def py_round_of_int)
    with k Cons show ?case by (simp add: algebra_simps)
  qed
  then have "py_round (sum_list (map quarterLength fs) * of_int r) =
          py_round (of_int (sum_list (map (quantized_duration r) fs)))" by simp
  then show ?thesis by (simp only: py_round_of_int)
qed

text \<open>
  C4. Let the fragments at pitch \<open>p\<close> of a part (its notes of that pitch that are not grace
  notes, in stream order) form one tie chain: every fragment but the last has an outgoing
  tie (\<^verbatim>\<open>start\<close> or \<^verbatim>\<open>continue\<close>) and the last has none (\<^verbatim>\<open>stop\<close> or no tie), whatever
  else the stream holds in between. Then \<open>parse_notes_and_chords\<close> returns, and exactly one
  of its notes has pitch \<open>p\<close>: its time is the quantized offset of the first fragment and
  its duration is the sum of the quantized durations of all fragments (which is the
  quantized sum of their lengths whenever every length is a whole number of ticks). The
  chain may have any length; three fragments with the roles start, continue, stop are one
  instance.
\<close>

theorem tie_chain_merged:
  assumes "filter (is_fragment p) (notesAndRests stream) = f0 # fs"
    and "\<forall>f \<in> set (butlast (f0 # fs)). is_outgoing_tie f"
    and "\<not> is_outgoing_tie (last (f0 # fs))"
  shows "\<exists>ns cs. parse_notes_and_chords stream r = Inr (ns, cs) \<and>
           map (\<lambda>n. (Note.time n, Note.duration n)) (filter (\<lambda>n. Note.pitch n = p) ns) =
             [(quantized_time r f0, sum_list (map (quantized_duration r) (f0 # fs)))]
           \<and> ((\<forall>f \<in> set (f0 # fs). \<exists>k. quarterLength f * of_int r = of_int (k :: int)) \<longrightarrow>
                sum_list (map (quantized_duration r) (f0 # fs)) =
                  py_round (sum_list (map quarterLength (f0 # fs)) * of_int r))"
proof -
  from chain_notes [OF assms, of r] obtain ns cs where
    "parse_notes_and_chords stream r = Inr (ns, cs)"
    "filter (\<lambda>n. Note.pitch n = p) ns =
       [\<lparr>Note.time = quantized_time r f0, pitch = p,
         duration = sum_list (map (quantized_duration r) (f0 # fs)),
         velocity = rounded_velocity f0\<rparr>]"
    by blast
  then show ?thesis using quantized_durations_on_grid [of "f0 # fs" r] by simp
qed

lemma tied_part_fragments:
  "filter (is_fragment 60) (notesAndRests tied_part) = chain_first # [chain_middle, chain_last]"
  by (simp add: tied_part_def empty_stream_def is_fragment_def chain_first_def chain_middle_def
        chain_last_def example_note_def tied_chord_def a_rest_def)

lemma tied_part_roles:
  "\<forall>f \<in> set (butlast (chain_first # [chain_middle, chain_last])). is_outgoing_tie f"
  "\<not> is_outgoing_tie (last (chain_first # [chain_middle, chain_last]))"
  by (simp_all add: is_outgoing_tie_def chain_first_def chain_middle_def chain_last_def
        example_note_def)

lemma tied_part_quantities:
  "quantized_time 24 chain_first = 0"
  "sum_list (map (quantized_duration 24) (chain_first # [chain_middle, chain_last])) = 84"
  "rounded_velocity chain_first = Some 80"
  by code_simp+

lemma tied_part_on_grid:
  "\<forall>f \<in> set (chain_first # [chain_middle, chain_last]).
     \<exists>k. quarterLength f * of_int 24 = of_int (k :: int)"
proof -
  have "quarterLength chain_first * of_int 24 = of_int 24"
    "quarterLength chain_middle * of_int 24 = of_int 12"
    "quarterLength chain_last * of_int 24 = of_int 48"
    by (simp_all add: chain_first_def chain_middle_def chain_last_def example_note_def)
  then show ?thesis by (metis set_ConsD empty_iff empty_set)
qed

theorem tie_chain_merged_witness:
  "filter (is_fragment 60) (notesAndRests tied_part) = [chain_first, chain_middle, chain_last]
   \<and> map tie [chain_first, chain_middle, chain_last]
       = [Some ''start'', Some ''continue'', Some ''stop'']
   \<and> map quarterLength [chain_first, chain_middle, chain_last] = [1, 1 / 2, 2]
   \<and> py_round ((1 + 1 / 2 + 2) * of_int 24) = 84
   \<and> (\<exists>ns cs. parse_notes_and_chords tied_part 24 = Inr (ns, cs) \<and>
         map (\<lambda>n. (Note.time n, Note.duration n)) (filter (\<lambda>n. Note.pitch n = 60) ns)
           = [(0, 84)])"
proof -
  have q: "py_round ((1 + 1 / 2 + 2) * of_int 24) = 84" by code_simp
  show ?thesis
    using tie_chain_merged [OF tied_part_fragments tied_part_roles, of 24]
      tied_part_fragments tied_part_quantities tied_part_on_grid q
    by (simp add: chain_first_def chain_middle_def chain_last_def example_note_def)
qed

lemma tie_chains_empty_iff [simp]: "tie_chains fs = [] \<longleftrightarrow> fs = []"
  by (cases fs) (auto split: list.splits)

lemma merge_chains:
  "fst (foldl (merge_fragment r p) (ns, False) fs) = ns @ map (chain_note r p) (tie_chains fs)"
  "fst (foldl (merge_fragment r p) (ns @ [n], True) fs) =
     (case tie_chains fs of
        [] \<Rightarrow> ns @ [n]
      | c # cs \<Rightarrow>
          ns @ [n\<lparr>Note.duration := Note.duration n + sum_list (map (quantized_duration r) c)\<rparr>]
             @ map (chain_note r p) cs)"
proof (induction fs arbitrary: ns n)
  case Nil
  { case 1 show ?case by simp }
  { case 2 show ?case by simp }
next
  case (Cons f fs)
  { case 1
    show ?case
    proof (cases "is_outgoing_tie f")
      case False
      then show ?thesis
        using Cons.IH(1) [of "ns @ [\<lparr>Note.time = quantized_time r f, pitch = p,
                    duration = quantized_duration r f,
                    velocity = rounded_velocity f\<rparr>]"]
        by (simp add: chain_note_def)
    next
      case True
      then show ?thesis
        using Cons.IH(2) [of ns "\<lparr>Note.time = quantized_time r f, pitch = p,
                    duration = quantized_duration r f,
                    velocity = rounded_velocity f\<rparr>"]
        by (simp add: chain_note_def split: list.splits)
    qed }
  { case 2
    show ?case
    proof (cases "is_outgoing_tie f")
      case False
      then show ?thesis
        using Cons.IH(1) [of "ns @ [n\<lparr>Note.duration := Note.duration n + quantized_duration r f\<rparr>]"]
        by simp
    next
      case True
      then show ?thesis
        using Cons.IH(2) [of ns "n\<lparr>Note.duration := Note.duration n + quantized_duration r f\<rparr>"]
        by (simp add: add.assoc split: list.splits)
    qed }
qed

lemma tie_chains_concat: "concat (tie_chains fs) = fs"
  by (induction fs) (auto split: list.splits)

lemma tie_chains_shape:
  "\<forall>c \<in> set (tie_chains fs). c \<noteq> [] \<and> (\<forall>f \<in> set (butlast c). is_outgoing_tie f)"
  by (induction fs) (auto split: list.splits)

lemma tie_chains_closed:
  "\<forall>c \<in> set (butlast (tie_chains fs)). \<not> is_outgoing_tie (last c)"
proof (induction fs)
  case Nil
  then show ?case by simp
next
  case (Cons f fs)
  note IH = Cons.IH
  have ne: "\<forall>c \<in> set (tie_chains fs). c \<noteq> []" using tie_chains_shape [of fs] by blast
  show ?case
  proof (cases "tie_chains fs")
    case Nil
    then show ?thesis by simp
  next
    case chains: (Cons c cs)
    with ne have "c \<noteq> []" by simp
    with chains IH show ?thesis by (auto split: if_splits)
  qed
qed

text \<open>
  C10. For every part and every pitch \<open>p\<close>, the notes of pitch \<open>p\<close> that
  \<open>parse_notes_and_chords\<close> returns are, in order, one note for each tie chain of the
  fragments at \<open>p\<close>, however many chains there are and whether or not the last one is
  closed. The note of a chain has the time, the pitch and the velocity of the first
  fragment of the chain; of the later fragments only the quantized durations enter, as
  summands of the duration, so their offsets and velocities are dropped whatever they
  are. The chains are the fragments at \<open>p\<close> cut after every fragment without an outgoing
  tie: together they are all the fragments, none is empty, inside a chain every fragment
  but the last has an outgoing tie, and every chain but the last ends without one.
\<close>

theorem tie_chain_takes_first_fragment:
  "\<exists>ns cs. parse_notes_and_chords stream r = Inr (ns, cs)
     \<and> filter (\<lambda>n. Note.pitch n = p) ns =
         map (\<lambda>c. \<lparr>Note.time = quantized_time r (hd c), pitch = p,
                    duration = sum_list (map (quantized_duration r) c),
                    velocity = rounded_velocity (hd c)\<rparr>)
           (tie_chains (filter (is_fragment p) (notesAndRests stream)))
     \<and> concat (tie_chains (filter (is_fragment p) (notesAndRests stream)))
         = filter (is_fragment p) (notesAndRests stream)
     \<and> (\<forall>c \<in> set (tie_chains (filter (is_fragment p) (notesAndRests stream))).
           c \<noteq> [] \<and> (\<forall>f \<in> set (butlast c). is_outgoing_tie f))
     \<and> (\<forall>c \<in> set (butlast (tie_chains (filter (is_fragment p) (notesAndRests stream)))).
           \<not> is_outgoing_tie (last c))"
proof -
  from extract_items_view [OF ties_wf_initial, of r "notesAndRests stream" p]
  obtain s where s: "extract_items r ([], [], Map.empty) (notesAndRests stream) = Inr s"
    "pitch_view p s = foldl (merge_fragment r p) (pitch_view p ([], [], Map.empty))
                        (filter (is_fragment p) (notesAndRests stream))"
    by auto
  obtain ns cs ties where t: "s = (ns, cs, ties)" by (cases s)
  have "pitch_view p ([], [], Map.empty) = ([], False)" by (simp add: pitch_view_def)
  with s(2) have "fst (pitch_view p s) =
      fst (foldl (merge_fragment r p) ([], False) (filter (is_fragment p) (notesAndRests stream)))"
    by simp
  then have "filter (\<lambda>n. Note.pitch n = p) ns =
      fst (foldl (merge_fragment r p) ([], False) (filter (is_fragment p) (notesAndRests stream)))"
    by (simp add: t pitch_view_def)
  also have "\<dots> = map (chain_note r p) (tie_chains (filter (is_fragment p) (notesAndRests stream)))"
    by (simp add: merge_chains(1))
  finally have "filter (\<lambda>n. Note.pitch n = p) ns =
         map (\<lambda>c. \<lparr>Note.time = quantized_time r (hd c), pitch = p,
                    duration = sum_list (map (quantized_duration r) c),
                    velocity = rounded_velocity (hd c)\<rparr>)
           (tie_chains (filter (is_fragment p) (notesAndRests stream)))"
    by (simp add: chain_note_def [abs_def])
  moreover have "parse_notes_and_chords stream r = Inr (ns, cs)"
    using s(1) t by (simp add: parse_notes_and_chords_def)
  ultimately show ?thesis
    using tie_chains_concat tie_chains_shape tie_chains_closed by blast
qed

theorem tie_chain_takes_first_fragment_witness:
  "map volume_velocity (filter (is_fragment 60) (notesAndRests two_chains_part))
     = [Some 80, Some 50, Some 30, Some 10, Some 20]
   \<and> map tie (filter (is_fragment 60) (notesAndRests two_chains_part))
     = [Some ''start'', Some ''continue'', Some ''stop'', Some ''start'', Some ''continue'']
   \<and> (\<exists>ns cs. parse_notes_and_chords two_chains_part 24 = Inr (ns, cs) \<and>
         filter (\<lambda>n. Note.pitch n = 60) ns =
           [\<lparr>Note.time = 0, pitch = 60, duration = 84, velocity = Some 80\<rparr>,
            \<lparr>Note.time = 96, pitch = 60, duration = 48, velocity = Some 10\<rparr>])"
proof -
  have a: "map volume_velocity (filter (is_fragment 60) (notesAndRests two_chains_part))
     = [Some 80, Some 50, Some 30, Some 10, Some 20]"
    "map tie (filter (is_fragment 60) (notesAndRests two_chains_part))
     = [Some ''start'', Some ''continue'', Some ''stop'', Some ''start'', Some ''continue'']"
    by code_simp+
  have b: "map (\<lambda>c. \<lparr>Note.time = quantized_time 24 (hd c), pitch = 60,
                    duration = sum_list (map (quantized_duration 24) c),
                    velocity = rounded_velocity (hd c)\<rparr>)
           (tie_chains (filter (is_fragment 60) (notesAndRests two_chains_part))) =
           [\<lparr>Note.time = 0, pitch = 60, duration = 84, velocity = Some 80\<rparr>,
            \<lparr>Note.time = 96, pitch = 60, duration = 48, velocity = Some 10\<rparr>]"
    by code_simp
  from tie_chain_takes_first_fragment [of two_chains_part 24 60] obtain ns cs where
    "parse_notes_and_chords two_chains_part 24 = Inr (ns, cs)"
    "filter (\<lambda>n. Note.pitch n = 60) ns =
         map (\<lambda>c. \<lparr>Note.time = quantized_time 24 (hd c), pitch = 60,
                    duration = sum_list (map (quantized_duration 24) c),
                    velocity = rounded_velocity (hd c)\<rparr>)
           (tie_chains (filter (is_fragment 60) (notesAndRests two_chains_part)))"
    by blast
  with a b show ?thesis by simp
qed

subsection \<open>Tracks\<close>

text \<open>
  C9. For every part, \<open>parse_track\<close> returns a track whose program is the MIDI program
  of the part's instrument when it declares one and 0 otherwise, and which is a drum track
  exactly when the instrument declares the MIDI channel 10.
\<close>

theorem track_instrument_defaults:
  "\<exists>t. parse_track part r = Inr t
     \<and> program t = (case midiProgram (getInstrument part) of Some p \<Rightarrow> p | None \<Rightarrow> 0)
     \<and> is_drum t = (midiChannel (getInstrument part) = Some 10)"
proof -
  obtain ns cs where "parse_notes_and_chords part r = Inr (ns, cs)"
    using parse_notes_and_chords_returns by blast
  then show ?thesis
    by (cases "midiChannel (getInstrument part)") (simp_all add: parse_track_def Let_def)
qed

theorem track_instrument_defaults_witness:
  "midiProgram (getInstrument drum_part) = None \<and> midiChannel (getInstrument drum_part) = Some 10
   \<and> (\<exists>t. parse_track drum_part 24 = Inr t \<and> program t = 0 \<and> is_drum t = True)"
  using track_instrument_defaults [of drum_part 24]
  by (simp add: drum_part_def empty_stream_def)

subsection \<open>Chords\<close>

lemma extract_items_chords:
  "extract_items r (ns, cs, ties) items = Inr (ns', cs', ties') \<Longrightarrow>
   cs' = cs @ map (chord_of r) (filter (\<lambda>item. is_chord item \<and> \<not> isGrace item) items)"
proof (induction items arbitrary: ns cs ties)
  case Nil
  then show ?case by simp
next
  case (Cons item items)
  then obtain ns1 cs1 ties1 where
    s1: "extract_item r (ns, cs, ties) item = Inr (ns1, cs1, ties1)"
    and rest: "extract_items r (ns1, cs1, ties1) items = Inr (ns', cs', ties')"
    by (auto split: sum.splits)
  have "cs1 = cs @ (if is_chord item \<and> \<not> isGrace item then [chord_of r item] else [])"
    using s1
    by (auto simp: extract_item_def is_chord_def chord_of_def Let_def quantized_time_def
          quantized_duration_def rounded_velocity_def
        split: M21Kind.splits if_splits option.splits)
  with Cons.IH [OF rest] show ?case by simp
qed

lemma extract_items_without_chords:
  "extract_items r (ns, cs, ties) items = Inr (ns', cs', ties') \<Longrightarrow>
   extract_items r (ns, cs0, ties) (filter (\<lambda>item. \<not> is_chord item) items) = Inr (ns', cs0, ties')"
proof (induction items arbitrary: ns cs ties)
  case Nil
  then show ?case by simp
next
  case (Cons item items)
  then obtain ns1 cs1 ties1 where
    s1: "extract_item r (ns, cs, ties) item = Inr (ns1, cs1, ties1)"
    and rest: "extract_items r (ns1, cs1, ties1) items = Inr (ns', cs', ties')"
    by (auto split: sum.splits)
  show ?case
  proof (cases "is_chord item")
    case True
    then have "ns1 = ns" "ties1 = ties" using s1
      by (auto simp: extract_item_def is_chord_def Let_def split: M21Kind.splits if_splits)
    with Cons.IH [OF rest] True show ?thesis by simp
  next
    case False
    then have "extract_item r (ns, cs0, ties) item = Inr (ns1, cs0, ties1)" using s1
      by (auto simp: extract_item_def is_chord_def Let_def
          split: M21Kind.splits if_splits option.splits)
    with Cons.IH [OF rest] False show ?thesis by simp
  qed
qed

text \<open>
  C7, as the code has it. Every chord element that is not a grace note becomes exactly one
  chord of the result, in stream order, with the quantized offset and duration, the
  velocity and the pitches of that element alone, whether or not the element carries a
  tie. Chord elements leave the notes and the table of open ties untouched: the loop ends
  with the same notes and the same table on the stream without its chord elements.
\<close>

theorem chords_independent_of_ties:
  "\<exists>ns cs ties.
     extract_items r ([], [], Map.empty) (notesAndRests stream) = Inr (ns, cs, ties)
     \<and> parse_notes_and_chords stream r = Inr (ns, cs)
     \<and> cs = map (chord_of r)
              (filter (\<lambda>item. is_chord item \<and> \<not> isGrace item) (notesAndRests stream))
     \<and> extract_items r ([], [], Map.empty)
         (filter (\<lambda>item. \<not> is_chord item) (notesAndRests stream)) = Inr (ns, [], ties)"
proof -
  obtain s where s: "extract_items r ([], [], Map.empty) (notesAndRests stream) = Inr s"
    using extract_items_wf [OF ties_wf_initial] by blast
  obtain ns cs ties where t: "s = (ns, cs, ties)" by (cases s)
  from s t extract_items_chords [of r "[]" "[]" Map.empty "notesAndRests stream" ns cs ties]
  have c: "cs = map (chord_of r)
              (filter (\<lambda>item. is_chord item \<and> \<not> isGrace item) (notesAndRests stream))"
    by simp
  from s t extract_items_without_chords [of r "[]" "[]" Map.empty "notesAndRests stream" ns cs ties "[]"]
  have d: "extract_items r ([], [], Map.empty)
         (filter (\<lambda>item. \<not> is_chord item) (notesAndRests stream)) = Inr (ns, [], ties)"
    by simp
  from s t c d show ?thesis by (simp add: parse_notes_and_chords_def)
qed

theorem chords_independent_of_ties_witness:
  "tie tied_chord = Some ''start''
   \<and> (\<exists>ns cs ties.
     extract_items 24 ([], [], Map.empty) (notesAndRests tied_part) = Inr (ns, cs, ties)
     \<and> parse_notes_and_chords tied_part 24 = Inr (ns, cs)
     \<and> cs = [\<lparr>Chord.time = 0, pitches = [60, 64], duration = 24, velocity = None\<rparr>]
     \<and> extract_items 24 ([], [], Map.empty)
         [chain_first, example_note 62 1 1 None None, chain_middle, a_rest, chain_last]
         = Inr (ns, [], ties))"
proof -
  have a: "filter (\<lambda>item. is_chord item \<and> \<not> isGrace item) (notesAndRests tied_part) = [tied_chord]"
    by (simp add: tied_part_def empty_stream_def is_chord_def chain_first_def chain_middle_def
        chain_last_def example_note_def tied_chord_def a_rest_def)
  have b: "filter (\<lambda>item. \<not> is_chord item) (notesAndRests tied_part) =
      [chain_first, example_note 62 1 1 None None, chain_middle, a_rest, chain_last]"
    by (simp add: tied_part_def empty_stream_def is_chord_def chain_first_def chain_middle_def
        chain_last_def example_note_def tied_chord_def a_rest_def)
  have c: "chord_of 24 tied_chord =
      \<lparr>Chord.time = 0, pitches = [60, 64], duration = 24, velocity = None\<rparr>"
    by code_simp
  have d: "tie tied_chord = Some ''start''" by (simp add: tied_chord_def)
  show ?thesis using chords_independent_of_ties [of 24 tied_part] a b c d by simp
qed

text \<open>
  The claim C7 as stated, for every chord element, fails for a chord that is a grace note:
  the loop skips it, so a stream holding one such chord yields no chord at all.
\<close>

theorem grace_chord_dropped:
  "is_chord grace_chord
   \<and> parse_notes_and_chords (empty_stream\<lparr>notesAndRests := [grace_chord]\<rparr>) 24 = Inr ([], [])"
  by code_simp

subsection \<open>Tempos, key signatures and time signatures\<close>

lemma set_add_fold:
  "distinct s \<Longrightarrow>
   distinct (foldl (\<lambda>acc x. set_add (g x) acc) s xs)
   \<and> set (foldl (\<lambda>acc x. set_add (g x) acc) s xs) = set s \<union> g ` set xs"
proof (induction xs arbitrary: s)
  case Nil
  then show ?case by simp
next
  case (Cons x xs)
  have "distinct (set_add (g x) s)" "set (set_add (g x) s) = insert (g x) (set s)"
    using Cons.prems by (auto simp: set_add_def)
  with Cons.IH [of "set_add (g x) s"] show ?case by auto
qed

lemma dedup_sorted:
  fixes f :: "'b \<Rightarrow> int"
  assumes "is_iteration_order it"
  shows "sorted (map f (sort_key f (it (foldl (\<lambda>acc x. set_add (g x) acc) [] xs))))"
    and "distinct (sort_key f (it (foldl (\<lambda>acc x. set_add (g x) acc) [] xs)))"
    and "set (sort_key f (it (foldl (\<lambda>acc x. set_add (g x) acc) [] xs))) = g ` set xs"
proof -
  let ?s = "foldl (\<lambda>acc x. set_add (g x) acc) [] xs"
  have s: "distinct ?s" "set ?s = g ` set xs"
    using set_add_fold [of "[]" g xs] by auto
  with assms have "distinct (it ?s)" "set (it ?s) = g ` set xs"
    by (auto simp: is_iteration_order_def)
  then show "distinct (sort_key f (it ?s))" "set (sort_key f (it ?s)) = g ` set xs"
    by simp_all
  show "sorted (map f (sort_key f (it ?s)))" by (rule sorted_sort_key)
qed

lemma dedup_strict:
  fixes f :: "'b \<Rightarrow> int"
  assumes "is_iteration_order it" "inj_on f (g ` set xs)"
  shows "sorted_wrt (<) (map f (sort_key f (it (foldl (\<lambda>acc x. set_add (g x) acc) [] xs))))"
  using dedup_sorted [OF assms(1), of f g xs] assms(2)
  by (simp add: strict_sorted_iff distinct_map)

lemma dedup_order_independent:
  fixes f :: "'b \<Rightarrow> int"
  assumes "is_iteration_order it" "is_iteration_order it'" "inj_on f (g ` set xs)"
  shows "sort_key f (it' (foldl (\<lambda>acc x. set_add (g x) acc) [] xs)) =
         sort_key f (it (foldl (\<lambda>acc x. set_add (g x) acc) [] xs))"
proof -
  let ?a = "sort_key f (it' (foldl (\<lambda>acc x. set_add (g x) acc) [] xs))"
  let ?b = "sort_key f (it (foldl (\<lambda>acc x. set_add (g x) acc) [] xs))"
  have a: "sorted (map f ?a)" "distinct ?a" "set ?a = g ` set xs"
    using dedup_sorted [OF assms(2), of f g xs] by auto
  have b: "sorted (map f ?b)" "distinct ?b" "set ?b = g ` set xs"
    using dedup_sorted [OF assms(1), of f g xs] by auto
  have "map f ?a = map f ?b"
  proof (rule sorted_distinct_set_unique)
    show "distinct (map f ?a)" using a assms(3) by (simp add: distinct_map)
    show "distinct (map f ?b)" using b assms(3) by (simp add: distinct_map)
    show "set (map f ?a) = set (map f ?b)" using a b by simp
  qed (use a b in auto)
  then show ?thesis
    by (rule map_inj_on) (use a b assms(3) in simp)
qed

lemma parse_tempos_eq:
  "parse_tempos it stream r =
     sort_key Tempo.time
       (it (foldl (\<lambda>acc x. set_add (tempo_of r x) acc) [] (metronomeMarkBoundaries stream)))"
proof -
  have "(\<lambda>tempos (start, _, bpm).
             set_add \<lparr>Tempo.time = py_round (start * of_int r), qpm = bpm\<rparr> tempos)
        = (\<lambda>acc x. set_add (tempo_of r x) acc)"
    by (auto simp: fun_eq_iff tempo_of_def)
  then show ?thesis by (simp add: parse_tempos_def)
qed

lemma parse_key_signatures_eq:
  "parse_key_signatures it stream r =
     sort_key KeySignature.time
       (it (foldl (\<lambda>acc x. set_add (key_signature_of r x) acc) [] (keySignatures stream)))"
proof -
  have "(\<lambda>key_signatures item.
             (case item of
                Key off tonic md sharps \<Rightarrow>
                  set_add \<lparr>KeySignature.time = py_round (off * of_int r),
                           root = Some tonic, mode = Some md, fifths = sharps\<rparr>
                    key_signatures
              | KeySignatureOnly off sharps \<Rightarrow>
                  set_add \<lparr>KeySignature.time = py_round (off * of_int r),
                           root = None, mode = None, fifths = sharps\<rparr>
                    key_signatures))
        = (\<lambda>acc x. set_add (key_signature_of r x) acc)"
    by (auto simp: fun_eq_iff key_signature_of_def split: M21KeySignature.splits)
  then show ?thesis by (simp add: parse_key_signatures_def)
qed

lemma parse_time_signatures_eq:
  "parse_time_signatures it stream r =
     sort_key TimeSignature.time
       (it (foldl (\<lambda>acc x. set_add (time_signature_of r x) acc) [] (getTimeSignatures stream)))"
  by (simp add: parse_time_signatures_def time_signature_of_def)

lemma dedup_all:
  fixes f :: "'b \<Rightarrow> int"
  assumes "is_iteration_order it"
    and out: "\<And>i. p i = sort_key f (i (foldl (\<lambda>acc x. set_add (g x) acc) [] xs))"
  shows "sorted (map f (p it)) \<and> distinct (p it) \<and> set (p it) = g ` set xs
     \<and> (inj_on f (set (p it)) \<longrightarrow>
          sorted_wrt (<) (map f (p it))
          \<and> (\<forall>it'. is_iteration_order it' \<longrightarrow> p it' = p it))"
proof -
  have s: "set (p it) = g ` set xs"
    using dedup_sorted(3) [OF assms(1), of f g xs] by (simp only: out)
  have inj: "inj_on f (g ` set xs)" if "inj_on f (set (p it))"
    using that unfolding s .
  have "sorted_wrt (<) (map f (p it))" if "inj_on f (set (p it))"
    unfolding out by (rule dedup_strict [OF assms(1) inj [OF that]])
  moreover have "p it' = p it" if "inj_on f (set (p it))" "is_iteration_order it'" for it'
    unfolding out by (rule dedup_order_independent [OF assms(1) that(2) inj [OF that(1)]])
  moreover have "sorted (map f (p it))" "distinct (p it)"
    using dedup_sorted(1,2) [OF assms(1), of f g xs] by (simp_all only: out)
  ultimately show ?thesis using s by blast
qed

lemma dedup_all_stable:
  fixes f :: "'b \<Rightarrow> int"
  assumes "is_iteration_order it"
    and out: "\<And>i. p i = sort_key f (i (foldl (\<lambda>acc x. set_add (g x) acc) [] xs))"
  shows "sorted (map f (p it)) \<and> distinct (p it) \<and> set (p it) = g ` set xs
     \<and> (\<forall>k. filter (\<lambda>x. f x = k) (p it) = filter (\<lambda>x. f x = k) (it (set_of_records g xs)))
     \<and> (inj_on f (set (p it)) \<longrightarrow>
          sorted_wrt (<) (map f (p it))
          \<and> (\<forall>it'. is_iteration_order it' \<longrightarrow> p it' = p it))"
proof -
  have "\<forall>k. filter (\<lambda>x. f x = k) (p it) = filter (\<lambda>x. f x = k) (it (set_of_records g xs))"
    by (simp add: out set_of_records_def sort_key_stable)
  with dedup_all [OF assms(1), of p f g xs, OF out] show ?thesis by blast
qed

text \<open>
  C5, as the code has it. For every stream, every resolution and every order in which the
  sets are iterated, each of \<open>parse_tempos\<close>, \<open>parse_key_signatures\<close> and
  \<open>parse_time_signatures\<close> returns a list that is sorted ascending by time, has no
  duplicate record and holds exactly the records built from the elements of the stream;
  the records of the result that share a tick stand in the order in which the set is
  iterated. Whenever no two distinct records of the result share a tick, the list is
  strictly sorted by time and is the same for every iteration order of the set.
\<close>

theorem annotations_sorted_without_duplicates:
  assumes "is_iteration_order it_t" "is_iteration_order it_k" "is_iteration_order it_s"
  shows
    "(sorted (map Tempo.time (parse_tempos it_t stream r))
      \<and> distinct (parse_tempos it_t stream r)
      \<and> set (parse_tempos it_t stream r) = tempo_of r ` set (metronomeMarkBoundaries stream)
      \<and> (\<forall>k. filter (\<lambda>x. Tempo.time x = k) (parse_tempos it_t stream r) =
               filter (\<lambda>x. Tempo.time x = k)
                 (it_t (set_of_records (tempo_of r) (metronomeMarkBoundaries stream))))
      \<and> (inj_on Tempo.time (set (parse_tempos it_t stream r)) \<longrightarrow>
           sorted_wrt (<) (map Tempo.time (parse_tempos it_t stream r))
           \<and> (\<forall>it'. is_iteration_order it' \<longrightarrow>
                 parse_tempos it' stream r = parse_tempos it_t stream r)))
     \<and> (sorted (map KeySignature.time (parse_key_signatures it_k stream r))
      \<and> distinct (parse_key_signatures it_k stream r)
      \<and> set (parse_key_signatures it_k stream r)
          = key_signature_of r ` set (keySignatures stream)
      \<and> (\<forall>k. filter (\<lambda>x. KeySignature.time x = k) (parse_key_signatures it_k stream r) =
               filter (\<lambda>x. KeySignature.time x = k)
                 (it_k (set_of_records (key_signature_of r) (keySignatures stream))))
      \<and> (inj_on KeySignature.time (set (parse_key_signatures it_k stream r)) \<longrightarrow>
           sorted_wrt (<) (map KeySignature.time (parse_key_signatures it_k stream r))
           \<and> (\<forall>it'. is_iteration_order it' \<longrightarrow>
                 parse_key_signatures it' stream r = parse_key_signatures it_k stream r)))
     \<and> (sorted (map TimeSignature.time (parse_time_signatures it_s stream r))
      \<and> distinct (parse_time_signatures it_s stream r)
      \<and> set (parse_time_signatures it_s stream r)
          = time_signature_of r ` set (getTimeSignatures stream)
      \<and> (\<forall>k. filter (\<lambda>x. TimeSignature.time x = k) (parse_time_signatures it_s stream r) =
               filter (\<lambda>x. TimeSignature.time x = k)
                 (it_s (set_of_records (time_signature_of r) (getTimeSignatures stream))))
      \<and> (inj_on TimeSignature.time (set (parse_time_signatures it_s stream r)) \<longrightarrow>
           sorted_wrt (<) (map TimeSignature.time (parse_time_signatures it_s stream r))
           \<and> (\<forall>it'. is_iteration_order it' \<longrightarrow>
                 parse_time_signatures it' stream r = parse_time_signatures it_s stream r)))"
proof -
  note t = dedup_all_stable [OF assms(1), of "\<lambda>i. parse_tempos i stream r" Tempo.time
      "tempo_of r" "metronomeMarkBoundaries stream", OF parse_tempos_eq]
  note k = dedup_all_stable [OF assms(2), of "\<lambda>i. parse_key_signatures i stream r"
      KeySignature.time "key_signature_of r" "keySignatures stream",
      OF parse_key_signatures_eq]
  note s = dedup_all_stable [OF assms(3), of "\<lambda>i. parse_time_signatures i stream r"
      TimeSignature.time "time_signature_of r" "getTimeSignatures stream",
      OF parse_time_signatures_eq]
  show ?thesis by (rule conjI [OF t conjI [OF k s]])
qed

lemma iteration_orders:
  "is_iteration_order (\<lambda>s. s)" "is_iteration_order rev"
  by (simp_all add: is_iteration_order_def)

lemma annotated_values:
  "parse_tempos (\<lambda>s. s) annotated 24 =
     [\<lparr>Tempo.time = 0, qpm = 120\<rparr>, \<lparr>Tempo.time = 96, qpm = 90\<rparr>]"
  "parse_key_signatures (\<lambda>s. s) annotated 24 =
     [\<lparr>KeySignature.time = 0, root = Some 0, mode = Some ''major'', fifths = 0\<rparr>,
      \<lparr>KeySignature.time = 96, root = None, mode = None, fifths = 2\<rparr>]"
  "parse_time_signatures (\<lambda>s. s) annotated 24 =
     [\<lparr>TimeSignature.time = 0, numerator = 4, denominator = 4\<rparr>,
      \<lparr>TimeSignature.time = 96, numerator = 3, denominator = 4\<rparr>]"
  by code_simp+

theorem annotations_sorted_without_duplicates_witness:
  "parse_tempos (\<lambda>s. s) annotated 24 =
     [\<lparr>Tempo.time = 0, qpm = 120\<rparr>, \<lparr>Tempo.time = 96, qpm = 90\<rparr>]
   \<and> sorted_wrt (<) (map Tempo.time (parse_tempos (\<lambda>s. s) annotated 24))
   \<and> parse_tempos rev annotated 24 = parse_tempos (\<lambda>s. s) annotated 24
   \<and> sorted_wrt (<) (map KeySignature.time (parse_key_signatures (\<lambda>s. s) annotated 24))
   \<and> parse_key_signatures rev annotated 24 = parse_key_signatures (\<lambda>s. s) annotated 24
   \<and> sorted_wrt (<) (map TimeSignature.time (parse_time_signatures (\<lambda>s. s) annotated 24))
   \<and> parse_time_signatures rev annotated 24 = parse_time_signatures (\<lambda>s. s) annotated 24
   \<and> filter (\<lambda>x. TimeSignature.time x = 0) (parse_time_signatures rev polymetric 24) =
       [\<lparr>TimeSignature.time = 0, numerator = 4, denominator = 4\<rparr>,
        \<lparr>TimeSignature.time = 0, numerator = 3, denominator = 4\<rparr>]"
proof -
  have inj:
    "inj_on Tempo.time (set (parse_tempos (\<lambda>s. s) annotated 24))"
    "inj_on KeySignature.time (set (parse_key_signatures (\<lambda>s. s) annotated 24))"
    "inj_on TimeSignature.time (set (parse_time_signatures (\<lambda>s. s) annotated 24))"
    by (simp_all add: annotated_values)
  have rv: "is_iteration_order (rev :: Tempo list \<Rightarrow> Tempo list)"
    "is_iteration_order (rev :: KeySignature list \<Rightarrow> KeySignature list)"
    "is_iteration_order (rev :: TimeSignature list \<Rightarrow> TimeSignature list)"
    by (rule iteration_orders(2))+
  have p: "filter (\<lambda>x. TimeSignature.time x = 0)
             (rev (set_of_records (time_signature_of 24) (getTimeSignatures polymetric))) =
       [\<lparr>TimeSignature.time = 0, numerator = 4, denominator = 4\<rparr>,
        \<lparr>TimeSignature.time = 0, numerator = 3, denominator = 4\<rparr>]"
    by code_simp
  from annotations_sorted_without_duplicates [OF rv, of polymetric 24] p
  have q: "filter (\<lambda>x. TimeSignature.time x = 0) (parse_time_signatures rev polymetric 24) =
       [\<lparr>TimeSignature.time = 0, numerator = 4, denominator = 4\<rparr>,
        \<lparr>TimeSignature.time = 0, numerator = 3, denominator = 4\<rparr>]"
    by simp
  from annotations_sorted_without_duplicates
         [OF iteration_orders(1) iteration_orders(1) iteration_orders(1), of annotated 24]
    inj rv annotated_values(1) q
  show ?thesis by blast
qed

text \<open>
  The claim C5 as stated fails when two different records fall on the same tick: the time
  signatures 3/4 and 4/4, both at offset 0, are both kept, so the result is not strictly
  sorted by time, and their order in the result is the order in which the set is iterated.
\<close>

theorem polymetric_not_strictly_sorted:
  "\<not> sorted_wrt (<) (map TimeSignature.time (parse_time_signatures (\<lambda>s. s) polymetric 24))
   \<and> \<not> sorted_wrt (<) (map TimeSignature.time (parse_time_signatures rev polymetric 24))
   \<and> parse_time_signatures rev polymetric 24 \<noteq> parse_time_signatures (\<lambda>s. s) polymetric 24"
  by code_simp

subsection \<open>The beat loop returns\<close>

lemma measure_beats_returns:
  "numerator time_sign \<noteq> 0 \<Longrightarrow> \<exists>bs. measure_beats time_sign ticks = Inr bs"
  by (simp add: measure_beats_def)

lemma parse_beats_loop_returns:
  "\<forall>ts \<in> set tss. numerator ts \<noteq> 0 \<and> denominator ts \<noteq> 0 \<Longrightarrow> r \<noteq> 0 \<Longrightarrow> ti < length tss \<Longrightarrow>
   \<exists>bs. parse_beats_loop tss r dbs ti di acc = Inr bs"
proof (induction tss r dbs ti di acc rule: parse_beats_loop.induct)
  case (1 tss r dbs ti di acc)
  note nz = "1.prems"(1) and r = "1.prems"(2) and ti = "1.prems"(3)
  show ?case
  proof (cases "di < length dbs")
    case False
    then show ?thesis by (subst parse_beats_loop.simps) simp
  next
    case True
    show ?thesis
    proof (cases "int ti < int (length tss) - 1 \<and> TimeSignature.time (tss ! ti) \<le> dbs ! di")
      case adv: True
      then have "ti + 1 < length tss" by auto
      from "1.IH"(1) [OF True adv nz r this] obtain bs where
        "parse_beats_loop tss r dbs (ti + 1) di acc = Inr bs" by blast
      then show ?thesis using True adv by (subst parse_beats_loop.simps) simp
    next
      case stay: False
      define ts where "ts = tss ! ti"
      have "ts \<in> set tss" using ti by (simp add: ts_def)
      with nz have ts: "numerator ts \<noteq> 0" "denominator ts \<noteq> 0" by auto
      define br :: rat where "br = of_int r / (of_int (denominator ts) / 4)"
      have br: "br \<noteq> 0" using ts r by (simp add: br_def)
      define e :: rat where "e = (if int di < int (length dbs) - 1
                      then of_int (dbs ! (di + 1))
                      else of_int (dbs ! di) + br * of_int (numerator ts))"
      obtain bs where bs: "measure_beats ts (np_arange (of_int (dbs ! di)) e br) = Inr bs"
        using measure_beats_returns [OF ts(1)] by blast
      have nle: "\<not> length tss \<le> ti" using ti by simp
      from "1.IH"(2) [OF True stay nle ts_def ts(2) br_def e_def br bs nz r ti]
      obtain bs' where "parse_beats_loop tss r dbs ti (di + 1) (acc @ bs) = Inr bs'" by blast
      then show ?thesis
        apply (subst parse_beats_loop.simps)
        apply (simp only: True stay nle if_True if_False Let_def)
        apply (fold ts_def)
        apply (simp only: ts(2) if_False)
        apply (fold br_def)
        apply (fold e_def)
        apply (simp only: br if_False bs sum.case)
        apply blast
        done
    qed
  qed
qed

lemma parse_beats_no_time_signature:
  "measureOffsetMap stream \<noteq> [] \<Longrightarrow> parse_beats stream [] r = Inl IndexError"
proof -
  assume a: "measureOffsetMap stream \<noteq> []"
  define dbs where "dbs = sort (map (\<lambda>offset. py_round (offset * of_int r)) (measureOffsetMap stream))"
  have "length dbs = length (measureOffsetMap stream)" by (simp add: dbs_def)
  with a have "0 < length dbs" by simp
  then have "parse_beats_loop [] r dbs 0 0 [] = Inl IndexError"
    by (subst parse_beats_loop.simps) simp
  then show ?thesis by (simp add: parse_beats_def dbs_def)
qed

lemma parse_beats_returns:
  assumes "tss \<noteq> []" "\<forall>ts \<in> set tss. numerator ts \<noteq> 0 \<and> denominator ts \<noteq> 0" "r \<noteq> 0"
  shows "\<exists>bs. parse_beats stream tss r = Inr bs"
  using parse_beats_loop_returns [OF assms(2,3), of 0] assms(1)
  by (simp add: parse_beats_def)

subsection \<open>Tracks of parts and scores\<close>

lemma parse_track_returns:
  "\<exists>t. parse_track part r = Inr t \<and>
       (notesAndRests part = [] \<longrightarrow> notes t = [] \<and> chords t = [])"
proof -
  obtain ns cs where a: "parse_notes_and_chords part r = Inr (ns, cs)"
    using parse_notes_and_chords_returns by blast
  have "ns = [] \<and> cs = []" if "notesAndRests part = []"
    using a that by (simp add: parse_notes_and_chords_def)
  with a show ?thesis by (auto simp: parse_track_def Let_def)
qed

lemma collect_map_returns:
  "\<forall>x \<in> set xs. \<exists>v. f x = Inr v \<Longrightarrow>
   \<exists>vs. collect (map f xs) = Inr vs \<and> length vs = length xs"
proof (induction xs)
  case Nil
  then show ?case by simp
next
  case (Cons x xs)
  then obtain v vs where "f x = Inr v" "collect (map f xs) = Inr vs" "length vs = length xs"
    by auto
  then show ?case by simp
qed

lemma collect_append:
  "collect (xs @ ys) =
     (case collect xs of
        Inl e \<Rightarrow> Inl e
      | Inr a \<Rightarrow> (case collect ys of Inl e \<Rightarrow> Inl e | Inr b \<Rightarrow> Inr (a @ b)))"
  by (induction xs) (auto split: sum.splits)

lemma score_part_tracks_returns:
  "\<exists>ts. score_part_tracks pbi part = Inr ts \<and>
        length ts = (if partition_of pbi part \<noteq> [] then length (partition_of pbi part)
                     else if notesAndRests part = [] then 0 else 1)"
proof (cases "partition_of pbi part")
  case Nil
  obtain t where "parse_track part DEFAULT_RESOLUTION = Inr t"
    using parse_track_returns by blast
  then show ?thesis using Nil
    by (auto simp: score_part_tracks_def partition_of_def split: option.splits list.splits)
next
  case (Cons i subs)
  then have p: "pbi part = Some (i # subs)"
    by (auto simp: partition_of_def split: option.splits)
  have "\<forall>x \<in> set (i # subs). \<exists>v. parse_track x DEFAULT_RESOLUTION = Inr v"
    using parse_track_returns by blast
  from collect_map_returns [OF this] show ?thesis
    using p Cons by (auto simp: score_part_tracks_def)
qed

lemma from_music21_part_returns:
  "(partition_of pbi part = [] \<longrightarrow>
      (\<exists>t. from_music21_part pbi part r = Inr (OneTrack t)
         \<and> (notesAndRests part = [] \<longrightarrow> notes t = [] \<and> chords t = [])))
   \<and> (partition_of pbi part \<noteq> [] \<longrightarrow>
      (\<exists>ts. from_music21_part pbi part r = Inr (TrackList ts)
         \<and> length ts = length (partition_of pbi part)))"
proof (cases "partition_of pbi part")
  case Nil
  obtain t where "parse_track part r = Inr t"
    "notesAndRests part = [] \<longrightarrow> notes t = [] \<and> chords t = []"
    using parse_track_returns by blast
  then show ?thesis using Nil
    by (auto simp: from_music21_part_def partition_of_def split: option.splits list.splits)
next
  case (Cons i subs)
  then have p: "pbi part = Some (i # subs)"
    by (auto simp: partition_of_def split: option.splits)
  have "\<forall>x \<in> set (i # subs). \<exists>v. parse_track x r = Inr v"
    using parse_track_returns by blast
  from collect_map_returns [OF this] show ?thesis
    using p Cons by (auto simp: from_music21_part_def)
qed

lemma score_tracks_returns:
  "\<exists>tss. collect (map (score_part_tracks pbi) ps) = Inr tss"
  using collect_map_returns [of ps "score_part_tracks pbi"] score_part_tracks_returns
  by blast

lemma score_tracks_drop:
  assumes "score_part_tracks pbi part = Inr []"
  shows "map_sum id concat (collect (map (score_part_tracks pbi) (ps @ part # ps'))) =
         map_sum id concat (collect (map (score_part_tracks pbi) (ps @ ps')))"
  using assms by (simp add: collect_append split: sum.splits)

lemma from_music21_score_tracks:
  "from_music21_score iter pbi score r =
     (case map_sum id concat (collect (map (score_part_tracks pbi) (parts score))) of
        Inl e \<Rightarrow> Inl e
      | Inr trs \<Rightarrow>
          (case parse_beats score (parse_time_signatures (iter_time_signatures iter) score r) r of
             Inl e \<Rightarrow> Inl e
           | Inr bs \<Rightarrow>
               Inr \<lparr>Music.metadata = parse_metadata score,
                    resolution = DEFAULT_RESOLUTION,
                    tempos = parse_tempos (iter_tempos iter) score DEFAULT_RESOLUTION,
                    key_signatures = parse_key_signatures (iter_key_signatures iter) score r,
                    time_signatures = parse_time_signatures (iter_time_signatures iter) score r,
                    beats = bs,
                    tracks = trs\<rparr>))"
  by (simp add: from_music21_score_def Let_def split: sum.splits)

lemma stream_views_parts_update [simp]:
  "parse_metadata (score\<lparr>parts := ps\<rparr>) = parse_metadata score"
  "parse_tempos it (score\<lparr>parts := ps\<rparr>) r = parse_tempos it score r"
  "parse_key_signatures itk (score\<lparr>parts := ps\<rparr>) r = parse_key_signatures itk score r"
  "parse_time_signatures its (score\<lparr>parts := ps\<rparr>) r = parse_time_signatures its score r"
  "parse_beats (score\<lparr>parts := ps\<rparr>) tss r = parse_beats score tss r"
  by (simp_all add: parse_metadata_def parse_tempos_def parse_key_signatures_def
        parse_time_signatures_def parse_beats_def)

subsection \<open>Scores without a time signature\<close>

text \<open>
  C2, as the code has it. \<open>parse_beats\<close> puts no default in the place of a missing time
  signature: with an empty list of time signatures and at least one measure it raises
  \<^verbatim>\<open>IndexError\<close>. With a list that is not empty, numerators and denominators that are
  not zero and a resolution that is not zero it returns. \<open>from_music21_score\<close> passes on
  the time signatures music21 delivers, so it returns whenever that list is not empty (as
  it is when music21 supplies its default 4/4 entry at offset 0 for a score that has
  none), and the time signatures of the result are then not empty either.
\<close>

theorem conversion_returns_given_time_signature:
  assumes "is_iteration_order (iter_time_signatures iter)" and "r \<noteq> 0"
  shows "(tss \<noteq> [] \<and> (\<forall>ts \<in> set tss. numerator ts \<noteq> 0 \<and> denominator ts \<noteq> 0) \<longrightarrow>
            (\<exists>bs. parse_beats stream tss r = Inr bs))
       \<and> (measureOffsetMap stream \<noteq> [] \<longrightarrow> parse_beats stream [] r = Inl IndexError)
       \<and> (getTimeSignatures score \<noteq> []
            \<and> (\<forall>ts \<in> set (getTimeSignatures score).
                  M21TimeSignature.numerator ts \<noteq> 0 \<and> M21TimeSignature.denominator ts \<noteq> 0) \<longrightarrow>
            (\<exists>m. from_music21_score iter pbi score r = Inr m \<and> time_signatures m \<noteq> []))"
proof (intro conjI impI)
  assume "tss \<noteq> [] \<and> (\<forall>ts \<in> set tss. numerator ts \<noteq> 0 \<and> denominator ts \<noteq> 0)"
  then show "\<exists>bs. parse_beats stream tss r = Inr bs"
    using parse_beats_returns [of tss r stream] assms(2) by blast
next
  assume "measureOffsetMap stream \<noteq> []"
  then show "parse_beats stream [] r = Inl IndexError"
    by (rule parse_beats_no_time_signature)
next
  assume a: "getTimeSignatures score \<noteq> []
            \<and> (\<forall>ts \<in> set (getTimeSignatures score).
                  M21TimeSignature.numerator ts \<noteq> 0 \<and> M21TimeSignature.denominator ts \<noteq> 0)"
  let ?tss = "parse_time_signatures (iter_time_signatures iter) score r"
  have s: "set ?tss = time_signature_of r ` set (getTimeSignatures score)"
    using dedup_all [OF assms(1), of "\<lambda>i. parse_time_signatures i score r"
      TimeSignature.time "time_signature_of r" "getTimeSignatures score",
      OF parse_time_signatures_eq] by blast
  with a have ne: "?tss \<noteq> []" by auto
  have nz: "\<forall>ts \<in> set ?tss. numerator ts \<noteq> 0 \<and> denominator ts \<noteq> 0"
    using a by (auto simp: s time_signature_of_def)
  obtain bs where bs: "parse_beats score ?tss r = Inr bs"
    using parse_beats_returns [OF ne nz assms(2)] by blast
  obtain trs where "collect (map (score_part_tracks pbi) (parts score)) = Inr trs"
    using score_tracks_returns by blast
  with bs ne show "\<exists>m. from_music21_score iter pbi score r = Inr m \<and> time_signatures m \<noteq> []"
    by (simp add: from_music21_score_def Let_def)
qed

theorem conversion_returns_given_time_signature_witness:
  "getTimeSignatures unmetered_score =
     [\<lparr>M21TimeSignature.offset = 0, numerator = 4, denominator = 4\<rparr>]
   \<and> (\<exists>bs. parse_beats unmetered_score
             [\<lparr>TimeSignature.time = 0, numerator = 4, denominator = 4\<rparr>] 24 = Inr bs)
   \<and> parse_beats unmetered_score [] 24 = Inl IndexError
   \<and> (\<exists>m. from_music21_score insertion_order (\<lambda>p. None) unmetered_score 24 = Inr m
          \<and> time_signatures m \<noteq> [])"
proof -
  have a: "is_iteration_order (iter_time_signatures insertion_order)"
    by (simp add: insertion_order_def is_iteration_order_def)
  have b: "getTimeSignatures unmetered_score =
     [\<lparr>M21TimeSignature.offset = 0, numerator = 4, denominator = 4\<rparr>]"
    "measureOffsetMap unmetered_score = [0]"
    by (simp_all add: unmetered_score_def score_of_def default_meter_def)
  from conversion_returns_given_time_signature [OF a, of 24
      "[\<lparr>TimeSignature.time = 0, numerator = 4, denominator = 4\<rparr>]"
      unmetered_score unmetered_score "\<lambda>p. None"] b
  show ?thesis by simp
qed

text \<open>
  The claim C2 as stated, for \<open>parse_beats\<close> on an empty list of time signatures and a
  measure map that is not empty: the call raises.
\<close>

theorem parse_beats_without_time_signature_raises:
  "measureOffsetMap (stream_with_measures [0]) \<noteq> []
   \<and> parse_beats (stream_with_measures [0]) [] 24 = Inl IndexError"
  by code_simp

subsection \<open>The resolution of a score conversion\<close>

text \<open>
  C3. What \<open>from_music21_score\<close> returns at resolution 48 for a score with a tempo mark,
  a key signature and a note of one quarter, all at offset 1: the key signature is at tick
  48, but the tempo and the note are at tick 24 and the note lasts 24 ticks, because
  \<open>parse_tempos\<close> and \<open>parse_track\<close> are called with the default resolution; the
  resolution recorded in the result is 24 as well.
\<close>

theorem score_mixes_resolutions:
  "from_music21_score insertion_order (\<lambda>p. None) offset_one_score 48 =
     Inr \<lparr>Music.metadata = None, resolution = 24,
          tempos = [\<lparr>Tempo.time = 24, qpm = 120\<rparr>],
          key_signatures =
            [\<lparr>KeySignature.time = 48, root = None, mode = None, fifths = 2\<rparr>],
          time_signatures =
            [\<lparr>TimeSignature.time = 0, numerator = 4, denominator = 4\<rparr>],
          beats =
            [\<lparr>Beat.time = 0, is_downbeat = True\<rparr>, \<lparr>Beat.time = 48, is_downbeat = False\<rparr>,
             \<lparr>Beat.time = 96, is_downbeat = False\<rparr>, \<lparr>Beat.time = 144, is_downbeat = False\<rparr>],
          tracks =
            [\<lparr>program = 0, is_drum = False, name = None,
              notes = [\<lparr>Note.time = 24, pitch = 60, duration = 24, velocity = None\<rparr>],
              chords = []\<rparr>]\<rparr>"
  by code_simp

subsection \<open>Parts without notes\<close>

lemma collect_map_values:
  "collect (map f xs) = Inr vs \<Longrightarrow> map Inr vs = map f xs"
proof (induction xs arbitrary: vs)
  case Nil
  then show ?case by simp
next
  case (Cons x xs)
  then show ?case by (auto split: sum.splits)
qed

lemma partitioned_part_tracks:
  assumes "partition_of pbi part \<noteq> []"
  shows "\<exists>sub. score_part_tracks pbi part = Inr sub
           \<and> map Inr sub = map (\<lambda>i. parse_track i DEFAULT_RESOLUTION) (partition_of pbi part)"
proof -
  obtain sub where sub: "score_part_tracks pbi part = Inr sub"
    using score_part_tracks_returns by blast
  from assms obtain i subs where p: "pbi part = Some (i # subs)"
    by (cases "pbi part") (auto simp: partition_of_def neq_Nil_conv)
  with sub have "collect (map (\<lambda>i. parse_track i DEFAULT_RESOLUTION) (i # subs)) = Inr sub"
    by (simp add: score_part_tracks_def)
  from collect_map_values [OF this] p sub show ?thesis
    by (simp add: partition_of_def)
qed

lemma partitioned_part_in_score:
  assumes "partition_of pbi part \<noteq> []"
  shows "\<exists>sub. map Inr sub = map (\<lambda>i. parse_track i DEFAULT_RESOLUTION) (partition_of pbi part)
           \<and> (\<forall>m. from_music21_score iter pbi (score\<lparr>parts := ps @ part # ps'\<rparr>) r = Inr m \<longrightarrow>
                 (\<exists>mb ma.
                    from_music21_score iter pbi (score\<lparr>parts := ps\<rparr>) r = Inr mb
                    \<and> from_music21_score iter pbi (score\<lparr>parts := ps'\<rparr>) r = Inr ma
                    \<and> tracks m = tracks mb @ sub @ tracks ma))"
proof -
  obtain sub where sub: "score_part_tracks pbi part = Inr sub"
    "map Inr sub = map (\<lambda>i. parse_track i DEFAULT_RESOLUTION) (partition_of pbi part)"
    using partitioned_part_tracks [OF assms] by blast
  obtain bs where bs: "collect (map (score_part_tracks pbi) ps) = Inr bs"
    using score_tracks_returns by blast
  obtain as where as: "collect (map (score_part_tracks pbi) ps') = Inr as"
    using score_tracks_returns by blast
  have all: "collect (map (score_part_tracks pbi) (ps @ part # ps')) = Inr (bs @ sub # as)"
    using sub(1) bs as by (simp add: collect_append)
  have "\<exists>mb ma.
          from_music21_score iter pbi (score\<lparr>parts := ps\<rparr>) r = Inr mb
          \<and> from_music21_score iter pbi (score\<lparr>parts := ps'\<rparr>) r = Inr ma
          \<and> tracks m = tracks mb @ sub @ tracks ma"
    if m: "from_music21_score iter pbi (score\<lparr>parts := ps @ part # ps'\<rparr>) r = Inr m" for m
  proof -
    from m all obtain b where
      b: "parse_beats score (parse_time_signatures (iter_time_signatures iter) score r) r = Inr b"
      and tm: "tracks m = concat (bs @ sub # as)"
      by (auto simp: from_music21_score_tracks split: sum.splits)
    from b bs as tm show ?thesis
      by (simp add: from_music21_score_tracks)
  qed
  with sub(2) show ?thesis by blast
qed

lemma from_music21_part_tracks:
  "(partition_of pbi part = [] \<longrightarrow>
      (\<exists>t. from_music21_part pbi part r = Inr (OneTrack t) \<and> parse_track part r = Inr t))
   \<and> (partition_of pbi part \<noteq> [] \<longrightarrow>
      (\<exists>ts. from_music21_part pbi part r = Inr (TrackList ts)
         \<and> map Inr ts = map (\<lambda>i. parse_track i r) (partition_of pbi part)))"
proof (cases "partition_of pbi part")
  case Nil
  obtain t where "parse_track part r = Inr t"
    using parse_track_returns by blast
  then show ?thesis using Nil
    by (auto simp: from_music21_part_def partition_of_def split: option.splits list.splits)
next
  case (Cons i subs)
  then have p: "pbi part = Some (i # subs)"
    by (auto simp: partition_of_def split: option.splits)
  have "\<forall>x \<in> set (i # subs). \<exists>v. parse_track x r = Inr v"
    using parse_track_returns by blast
  from collect_map_returns [OF this] obtain ts where
    ts: "collect (map (\<lambda>i. parse_track i r) (i # subs)) = Inr ts" by blast
  from collect_map_values [OF ts] ts p Cons show ?thesis
    by (simp add: from_music21_part_def)
qed

text \<open>
  C6, as the code has it. In the conversion of any score, a part for which the partition
  by instrument yields nothing and which has no notes or rests contributes no track: the
  result is that of the score without the part. A part for which the partition yields
  sub-parts contributes, whether or not it has notes or rests and wherever it stands among
  the parts, exactly one track for each sub-part, in order (the track \<open>parse_track\<close>
  makes of the sub-part at the default resolution), between the tracks of the parts before
  it and the tracks of the parts after it. A part converted directly is never dropped:
  without a partition it yields the one track \<open>parse_track\<close> makes of it, with no notes
  and no chords when the part has no notes or rests, and with a partition it yields the
  track of each sub-part, in order.
\<close>

theorem empty_part_tracks:
  "(partition_of pbi part = [] \<and> notesAndRests part = [] \<longrightarrow>
      from_music21_score iter pbi (score\<lparr>parts := ps @ part # ps'\<rparr>) r =
      from_music21_score iter pbi (score\<lparr>parts := ps @ ps'\<rparr>) r)
   \<and> (partition_of pbi part \<noteq> [] \<longrightarrow>
        (\<exists>sub. map Inr sub =
                 map (\<lambda>i. parse_track i DEFAULT_RESOLUTION) (partition_of pbi part)
           \<and> length sub = length (partition_of pbi part)
           \<and> (\<forall>m. from_music21_score iter pbi (score\<lparr>parts := ps @ part # ps'\<rparr>) r = Inr m \<longrightarrow>
                 (\<exists>mb ma.
                    from_music21_score iter pbi (score\<lparr>parts := ps\<rparr>) r = Inr mb
                    \<and> from_music21_score iter pbi (score\<lparr>parts := ps'\<rparr>) r = Inr ma
                    \<and> tracks m = tracks mb @ sub @ tracks ma))))
   \<and> (partition_of pbi part \<noteq> [] \<longrightarrow>
        (\<forall>m. from_music21_score iter pbi (score\<lparr>parts := [part]\<rparr>) r = Inr m \<longrightarrow>
           length (tracks m) = length (partition_of pbi part)))
   \<and> (partition_of pbi part = [] \<longrightarrow>
        (\<exists>t. from_music21_part pbi part r = Inr (OneTrack t)
           \<and> parse_track part r = Inr t
           \<and> (notesAndRests part = [] \<longrightarrow> notes t = [] \<and> chords t = [])))
   \<and> (partition_of pbi part \<noteq> [] \<longrightarrow>
        (\<exists>ts. from_music21_part pbi part r = Inr (TrackList ts)
           \<and> map Inr ts = map (\<lambda>i. parse_track i r) (partition_of pbi part)
           \<and> length ts = length (partition_of pbi part)))"
proof (intro conjI)
  show "partition_of pbi part = [] \<and> notesAndRests part = [] \<longrightarrow>
      from_music21_score iter pbi (score\<lparr>parts := ps @ part # ps'\<rparr>) r =
      from_music21_score iter pbi (score\<lparr>parts := ps @ ps'\<rparr>) r"
  proof
    assume a: "partition_of pbi part = [] \<and> notesAndRests part = []"
    then have "score_part_tracks pbi part = Inr []"
      using score_part_tracks_returns [of pbi part] by auto
    from score_tracks_drop [OF this, of ps ps']
    show "from_music21_score iter pbi (score\<lparr>parts := ps @ part # ps'\<rparr>) r =
      from_music21_score iter pbi (score\<lparr>parts := ps @ ps'\<rparr>) r"
      by (simp add: from_music21_score_tracks cong: sum.case_cong)
  qed
  show "partition_of pbi part \<noteq> [] \<longrightarrow>
        (\<exists>sub. map Inr sub =
                 map (\<lambda>i. parse_track i DEFAULT_RESOLUTION) (partition_of pbi part)
           \<and> length sub = length (partition_of pbi part)
           \<and> (\<forall>m. from_music21_score iter pbi (score\<lparr>parts := ps @ part # ps'\<rparr>) r = Inr m \<longrightarrow>
                 (\<exists>mb ma.
                    from_music21_score iter pbi (score\<lparr>parts := ps\<rparr>) r = Inr mb
                    \<and> from_music21_score iter pbi (score\<lparr>parts := ps'\<rparr>) r = Inr ma
                    \<and> tracks m = tracks mb @ sub @ tracks ma)))"
  proof
    assume a: "partition_of pbi part \<noteq> []"
    from partitioned_part_in_score [OF a, where iter = iter and score = score and ps = ps
        and ps' = ps' and r = r] obtain sub where
      sub: "map Inr sub = map (\<lambda>i. parse_track i DEFAULT_RESOLUTION) (partition_of pbi part)"
      "\<forall>m. from_music21_score iter pbi (score\<lparr>parts := ps @ part # ps'\<rparr>) r = Inr m \<longrightarrow>
                 (\<exists>mb ma.
                    from_music21_score iter pbi (score\<lparr>parts := ps\<rparr>) r = Inr mb
                    \<and> from_music21_score iter pbi (score\<lparr>parts := ps'\<rparr>) r = Inr ma
                    \<and> tracks m = tracks mb @ sub @ tracks ma)"
      by blast
    from sub(1) have "length sub = length (partition_of pbi part)"
      by (rule map_eq_imp_length_eq)
    with sub show "\<exists>sub. map Inr sub =
                 map (\<lambda>i. parse_track i DEFAULT_RESOLUTION) (partition_of pbi part)
           \<and> length sub = length (partition_of pbi part)
           \<and> (\<forall>m. from_music21_score iter pbi (score\<lparr>parts := ps @ part # ps'\<rparr>) r = Inr m \<longrightarrow>
                 (\<exists>mb ma.
                    from_music21_score iter pbi (score\<lparr>parts := ps\<rparr>) r = Inr mb
                    \<and> from_music21_score iter pbi (score\<lparr>parts := ps'\<rparr>) r = Inr ma
                    \<and> tracks m = tracks mb @ sub @ tracks ma))"
      by blast
  qed
  show "partition_of pbi part \<noteq> [] \<longrightarrow>
        (\<forall>m. from_music21_score iter pbi (score\<lparr>parts := [part]\<rparr>) r = Inr m \<longrightarrow>
           length (tracks m) = length (partition_of pbi part))"
  proof (intro impI allI)
    fix m
    assume a: "partition_of pbi part \<noteq> []"
      and m: "from_music21_score iter pbi (score\<lparr>parts := [part]\<rparr>) r = Inr m"
    obtain ts where ts: "score_part_tracks pbi part = Inr ts"
      "length ts = length (partition_of pbi part)"
      using score_part_tracks_returns [of pbi part] a by auto
    from m ts show "length (tracks m) = length (partition_of pbi part)"
      by (auto simp: from_music21_score_tracks split: sum.splits)
  qed
  show "partition_of pbi part = [] \<longrightarrow>
        (\<exists>t. from_music21_part pbi part r = Inr (OneTrack t)
           \<and> parse_track part r = Inr t
           \<and> (notesAndRests part = [] \<longrightarrow> notes t = [] \<and> chords t = []))"
    using from_music21_part_tracks [of pbi part r] parse_track_returns [of part r] by auto
  show "partition_of pbi part \<noteq> [] \<longrightarrow>
        (\<exists>ts. from_music21_part pbi part r = Inr (TrackList ts)
           \<and> map Inr ts = map (\<lambda>i. parse_track i r) (partition_of pbi part)
           \<and> length ts = length (partition_of pbi part))"
  proof
    assume "partition_of pbi part \<noteq> []"
    with from_music21_part_tracks [of pbi part r] obtain ts where
      ts: "from_music21_part pbi part r = Inr (TrackList ts)"
      "map Inr ts = map (\<lambda>i. parse_track i r) (partition_of pbi part)" by blast
    from ts(2) have "length ts = length (partition_of pbi part)" by (rule map_eq_imp_length_eq)
    with ts show "\<exists>ts. from_music21_part pbi part r = Inr (TrackList ts)
           \<and> map Inr ts = map (\<lambda>i. parse_track i r) (partition_of pbi part)
           \<and> length ts = length (partition_of pbi part)" by blast
  qed
qed

lemma silent_score_returns:
  "\<exists>m. from_music21_score insertion_order pbi (silent_score\<lparr>parts := ps\<rparr>) 24 = Inr m"
proof -
  have "is_iteration_order (iter_time_signatures insertion_order)"
    by (simp add: insertion_order_def is_iteration_order_def)
  moreover have "getTimeSignatures (silent_score\<lparr>parts := ps\<rparr>) = default_meter"
    by (simp add: silent_score_def score_of_def)
  ultimately show ?thesis
    using parse_beats_returns [of "parse_time_signatures (iter_time_signatures insertion_order)
        (silent_score\<lparr>parts := ps\<rparr>) 24" 24 "silent_score\<lparr>parts := ps\<rparr>"]
      score_tracks_returns [of pbi ps]
    by (auto simp: from_music21_score_def Let_def parse_time_signatures_def default_meter_def
          set_add_def insertion_order_def)
qed

theorem empty_part_tracks_witness:
  "from_music21_score insertion_order (\<lambda>p. None)
       (silent_score\<lparr>parts := [] @ empty_stream # []\<rparr>) 24 =
     from_music21_score insertion_order (\<lambda>p. None) (silent_score\<lparr>parts := [] @ []\<rparr>) 24
   \<and> (\<exists>m. from_music21_score insertion_order (\<lambda>p. Some [p])
            (silent_score\<lparr>parts := [empty_stream]\<rparr>) 24 = Inr m \<and> length (tracks m) = 1)
   \<and> (\<exists>m mb ma sub.
         from_music21_score insertion_order partition_of_silent
           (silent_score\<lparr>parts := [tied_part] @ empty_stream # [drum_part]\<rparr>) 24 = Inr m
         \<and> from_music21_score insertion_order partition_of_silent
             (silent_score\<lparr>parts := [tied_part]\<rparr>) 24 = Inr mb
         \<and> from_music21_score insertion_order partition_of_silent
             (silent_score\<lparr>parts := [drum_part]\<rparr>) 24 = Inr ma
         \<and> map Inr sub = [parse_track empty_stream DEFAULT_RESOLUTION]
         \<and> tracks m = tracks mb @ sub @ tracks ma)
   \<and> (\<exists>t. from_music21_part (\<lambda>p. None) empty_stream 24 = Inr (OneTrack t)
          \<and> notes t = [] \<and> chords t = [])
   \<and> (\<exists>ts. from_music21_part (\<lambda>p. Some [p]) empty_stream 24 = Inr (TrackList ts)
          \<and> length ts = 1)"
proof -
  have p: "partition_of partition_of_silent empty_stream = [empty_stream]"
    by (simp add: partition_of_def partition_of_silent_def empty_stream_def)
  obtain m where m: "from_music21_score insertion_order partition_of_silent
           (silent_score\<lparr>parts := [tied_part] @ empty_stream # [drum_part]\<rparr>) 24 = Inr m"
    using silent_score_returns by blast
  from empty_part_tracks [where pbi = partition_of_silent and part = empty_stream
      and iter = insertion_order and score = silent_score and ps = "[tied_part]"
      and ps' = "[drum_part]" and r = 24] p m
  have a: "\<exists>m mb ma sub.
         from_music21_score insertion_order partition_of_silent
           (silent_score\<lparr>parts := [tied_part] @ empty_stream # [drum_part]\<rparr>) 24 = Inr m
         \<and> from_music21_score insertion_order partition_of_silent
             (silent_score\<lparr>parts := [tied_part]\<rparr>) 24 = Inr mb
         \<and> from_music21_score insertion_order partition_of_silent
             (silent_score\<lparr>parts := [drum_part]\<rparr>) 24 = Inr ma
         \<and> map Inr sub = [parse_track empty_stream DEFAULT_RESOLUTION]
         \<and> tracks m = tracks mb @ sub @ tracks ma"
    by (auto simp del: append.simps)
  show ?thesis
    using
      empty_part_tracks [where pbi = "\<lambda>p. None" and part = empty_stream
        and iter = insertion_order and score = silent_score and ps = "[]" and ps' = "[]"
        and r = 24]
      empty_part_tracks [where pbi = "\<lambda>p. Some [p]" and part = empty_stream
        and iter = insertion_order and score = silent_score and ps = "[]" and ps' = "[]"
        and r = 24]
      silent_score_returns [of "\<lambda>p. Some [p]" "[empty_stream]"] a
    by (auto simp: partition_of_def empty_stream_def)
qed

text \<open>
  The claim C6 as stated fails for a part without notes or rests for which the partition
  by instrument yields a sub-part: the score conversion appends a track for the sub-part
  without looking at the notes and rests.
\<close>

theorem silent_part_with_partition_kept:
  "notesAndRests (hd (parts silent_score)) = []
   \<and> map_sum id tracks (from_music21_score insertion_order (\<lambda>p. Some [p]) silent_score 24) =
       Inr [\<lparr>program = 0, is_drum = False, name = None, notes = [], chords = []\<rparr>]"
  by code_simp

end
